theory Spec2Isabelle
  imports Main
begin

section \<open>The repository merger: data model\<close>

text \<open>
  The program (\<^verbatim>\<open>src/index.ts\<close>, in two variants: the unfiltered one and the one with
  an extension allow-list) clones a repository into a temporary directory, builds a
  \<^verbatim>\<open>FileTree\<close> of it, renders the tree, walks the directory a second time appending
  every accepted file to a buffer, writes the buffer, and removes the clone.

  Strings are \<^typ>\<open>string\<close>: lists of bytes, the UTF-8 form in which names come from
  the file system and in which the output is written. The operations of the program on
  strings that are defined here (splitting at line feeds, searching for a slash or a
  dot) act on ASCII bytes only. \<^verbatim>\<open>a.localeCompare(b)\<close> and \<^verbatim>\<open>s.toLowerCase()\<close>
  depend on tables of the platform and are parameters \<open>localeCompare\<close> and
  \<open>toLowerCase\<close> of the functions that call them.
\<close>

subsection \<open>Errors\<close>

text \<open>Every exception the run can meet, as a value.\<close>

datatype error =
    CloneFailed
  | ReaddirFailed
  | StatFailed
  | ReadFailed
  | WriteFailed
  | RemoveFailed

subsection \<open>The cloned directory\<close>

text \<open>
  What the walks see below the temporary directory. A directory is its listing in the
  order \<^verbatim>\<open>fs.readdirSync\<close> returns it. \<open>File (Some bytes)\<close> is a file with these
  bytes, \<open>File None\<close> a file whose \<^verbatim>\<open>fs.readFileSync\<close> throws, \<open>Unlistable\<close> a
  directory whose \<^verbatim>\<open>fs.readdirSync\<close> throws, \<open>Broken\<close> an entry whose
  \<^verbatim>\<open>fs.statSync\<close> throws. Both walks of a run see the same directory.
\<close>

datatype fsnode =
    File "string option"
  | Dir "(string \<times> fsnode) list"
  | Unlistable
  | Broken

text \<open>\<^verbatim>\<open>fs.statSync(p).isDirectory()\<close>, where \<^verbatim>\<open>statSync\<close> succeeds.\<close>

fun isDirectory :: "fsnode \<Rightarrow> bool" where
  "isDirectory (Dir items) = True"
| "isDirectory Unlistable = True"
| "isDirectory (File c) = False"
| "isDirectory Broken = False"

fun statFails :: "fsnode \<Rightarrow> bool" where
  "statFails Broken = True"
| "statFails n = False"

subsection \<open>The tree of names\<close>

text \<open>
  \<^verbatim>\<open>interface FileTree { name: string; type: "file" | "directory"; children?: FileTree[] }\<close>
\<close>

datatype node_type = TFile | TDirectory

datatype FileTree =
  FileTree (name: string) (type: node_type) (children: "FileTree list option")

section \<open>Library functions the program calls\<close>

text \<open>The line feed, and the three box-drawing glyphs in UTF-8.\<close>

definition LF :: char where
  "LF = CHR 0x0A"

definition glyph_corner :: string where
  "glyph_corner = [CHR 0xE2, CHR 0x94, CHR 0x94]"

definition glyph_tee :: string where
  "glyph_tee = [CHR 0xE2, CHR 0x94, CHR 0x9C]"

definition glyph_dash :: string where
  "glyph_dash = [CHR 0xE2, CHR 0x94, CHR 0x80]"

definition glyph_bar :: string where
  "glyph_bar = [CHR 0xE2, CHR 0x94, CHR 0x82]"

text \<open>\<^verbatim>\<open>s.split("\n")\<close>: the pieces between line feeds; never an empty array.\<close>

fun split_nl :: "string \<Rightarrow> string list" where
  "split_nl [] = [[]]"
| "split_nl (c # cs) =
     (if c = LF then [] # split_nl cs
      else (case split_nl cs of
              [] \<Rightarrow> [[c]]
            | l # ls \<Rightarrow> (c # l) # ls))"

text \<open>\<^verbatim>\<open>a.join("\n")\<close>.\<close>

fun join_nl :: "string list \<Rightarrow> string" where
  "join_nl [] = []"
| "join_nl [l] = l"
| "join_nl (l # m # ls) = l @ [LF] @ join_nl (m # ls)"

text \<open>\<^verbatim>\<open>a.slice(n)\<close> for \<open>n \<ge> 0\<close>.\<close>

definition slice :: "nat \<Rightarrow> 'a list \<Rightarrow> 'a list" where
  "slice n a = drop n a"

text \<open>
  The text that \<^verbatim>\<open>fs.readFileSync(path, "utf8")\<close> makes of a file's bytes, in UTF-8
  again: the decoder goes through the bytes, keeps every well-formed sequence and puts
  the replacement character U+FFFD for every ill-formed one. \<open>needed\<close> counts the
  bytes still missing from the sequence \<open>seen\<close>, and \<open>lower\<close> and \<open>upper\<close> bound the
  next byte; a byte outside the bounds ends the sequence and is looked at again.
\<close>

definition replacement_character :: string where
  "replacement_character = [CHR 0xEF, CHR 0xBF, CHR 0xBD]"

function utf8_decode :: "nat \<Rightarrow> string \<Rightarrow> nat \<Rightarrow> nat \<Rightarrow> string \<Rightarrow> string" where
  "utf8_decode needed seen lower upper [] = (if needed = 0 then [] else replacement_character)"
| "utf8_decode needed seen lower upper (b # bs) =
     (let byte = (of_char b :: nat)
      in if needed = 0 then
           (if byte \<le> 0x7F then b # utf8_decode 0 [] 0x80 0xBF bs
            else if 0xC2 \<le> byte \<and> byte \<le> 0xDF then utf8_decode 1 [b] 0x80 0xBF bs
            else if 0xE0 \<le> byte \<and> byte \<le> 0xEF then
              utf8_decode 2 [b] (if byte = 0xE0 then 0xA0 else 0x80) (if byte = 0xED then 0x9F else 0xBF) bs
            else if 0xF0 \<le> byte \<and> byte \<le> 0xF4 then
              utf8_decode 3 [b] (if byte = 0xF0 then 0x90 else 0x80) (if byte = 0xF4 then 0x8F else 0xBF) bs
            else replacement_character @ utf8_decode 0 [] 0x80 0xBF bs)
         else if byte < lower \<or> upper < byte then replacement_character @ utf8_decode 0 [] 0x80 0xBF (b # bs)
         else if needed = 1 then seen @ [b] @ utf8_decode 0 [] 0x80 0xBF bs
         else utf8_decode (needed - 1) (seen @ [b]) 0x80 0xBF bs)"
  by pat_completeness auto
termination
  by (relation "measure (\<lambda>(needed, seen, lower, upper, bs). 2 * length bs + (if needed = 0 then 0 else 1))")
     auto

declare utf8_decode.simps [simp del]

definition utf8_text :: "string \<Rightarrow> string" where
  "utf8_text bytes = utf8_decode 0 [] 0x80 0xBF bytes"

text \<open>
  \<^verbatim>\<open>path.extname(item)\<close> for a directory entry's name (no slash in it): the name from
  its last dot on; empty when there is no dot, when the last dot is the first
  character, and for the name \<^verbatim>\<open>..\<close>.
\<close>

fun from_last_dot :: "string \<Rightarrow> string option" where
  "from_last_dot [] = None"
| "from_last_dot (c # cs) =
     (case from_last_dot cs of
        Some e \<Rightarrow> Some e
      | None \<Rightarrow> if c = CHR ''.'' then Some (c # cs) else None)"

definition extname :: "string \<Rightarrow> string" where
  "extname item =
     (case from_last_dot item of
        None \<Rightarrow> []
      | Some e \<Rightarrow> if length e = length item \<or> item = ''..'' then [] else e)"

text \<open>
  \<^verbatim>\<open>path.join(directory, item)\<close> on a POSIX system, where \<open>directory\<close> is the
  temporary directory or a path below it and \<open>item\<close> an entry's name: nothing to
  normalise.
\<close>

definition path_join :: "string \<Rightarrow> string \<Rightarrow> string" where
  "path_join directory item = directory @ ''/'' @ item"

text \<open>
  \<^verbatim>\<open>s.replace(pattern, replacement)\<close> with a string pattern: the first occurrence is
  replaced, and in the replacement \<^verbatim>\<open>$$\<close>, \<^verbatim>\<open>$&\<close>, \<^verbatim>\<open>$`\<close> and \<^verbatim>\<open>$'\<close> stand for a
  dollar sign, the match, the text before it and the text after it.
\<close>

fun find_first :: "string \<Rightarrow> string \<Rightarrow> (string \<times> string) option" where
  "find_first pat [] = (if pat = [] then Some ([], []) else None)"
| "find_first pat (c # cs) =
     (if take (length pat) (c # cs) = pat then Some ([], drop (length pat) (c # cs))
      else (case find_first pat cs of
              None \<Rightarrow> None
            | Some (front, back) \<Rightarrow> Some (c # front, back)))"

fun getSubstitution :: "string \<Rightarrow> string \<Rightarrow> string \<Rightarrow> string \<Rightarrow> string" where
  "getSubstitution matched front back [] = []"
| "getSubstitution matched front back [c] = [c]"
| "getSubstitution matched front back (c # d # r) =
     (if c = CHR ''$'' \<and> d = CHR ''$'' then CHR ''$'' # getSubstitution matched front back r
      else if c = CHR ''$'' \<and> d = CHR ''&'' then matched @ getSubstitution matched front back r
      else if c = CHR ''$'' \<and> d = CHR 0x60 then front @ getSubstitution matched front back r
      else if c = CHR ''$'' \<and> d = CHR 0x27 then back @ getSubstitution matched front back r
      else c # getSubstitution matched front back (d # r))"

definition replace :: "string \<Rightarrow> string \<Rightarrow> string \<Rightarrow> string" where
  "replace s pat replacement =
     (case find_first pat s of
        None \<Rightarrow> s
      | Some (front, back) \<Rightarrow> front @ getSubstitution pat front back replacement @ back)"

text \<open>\<^verbatim>\<open>String(n)\<close> for a non-negative integer, as in \<^verbatim>\<open>`temp-${Date.now()}`\<close>.\<close>

fun string_of_nat :: "nat \<Rightarrow> string" where
  "string_of_nat n =
     (if n < 10 then [char_of (48 + n)]
      else string_of_nat (n div 10) @ [char_of (48 + n mod 10)])"

declare string_of_nat.simps [simp del]

text \<open>
  \<^verbatim>\<open>items.sort(compare)\<close>. For a comparator that is a consistent ordering the result
  is fixed by the language: the permutation in ascending order that keeps the listing
  order of entries comparing equal. Insertion from the right computes it.
\<close>

fun insert_sorted :: "('a \<Rightarrow> 'a \<Rightarrow> int) \<Rightarrow> 'a \<Rightarrow> 'a list \<Rightarrow> 'a list" where
  "insert_sorted compare x [] = [x]"
| "insert_sorted compare x (y # ys) =
     (if compare x y \<le> 0 then x # y # ys else y # insert_sorted compare x ys)"

definition sort_with :: "('a \<Rightarrow> 'a \<Rightarrow> int) \<Rightarrow> 'a list \<Rightarrow> 'a list" where
  "sort_with compare xs = foldr (insert_sorted compare) xs []"

section \<open>The program\<close>

subsection \<open>getRepoNameFromUrl\<close>

text \<open>
  \<^verbatim>\<open>url.match(/\/([^\/]+?)(\.git)?$/)\<close>. The search tries each start position from the
  left (\<open>regex_search\<close>); at a slash (\<open>match_at\<close>) the lazy group takes one more
  character that is not a slash at a time (\<open>try_tail\<close>), and stops as soon as what is
  left is \<^verbatim>\<open>.git\<close> or nothing. The result is the first group.
\<close>

fun try_tail :: "string \<Rightarrow> string \<Rightarrow> string option" where
  "try_tail group1 rest =
     (if group1 \<noteq> [] \<and> (rest = ''.git'' \<or> rest = []) then Some group1
      else (case rest of
              [] \<Rightarrow> None
            | c # cs \<Rightarrow> if c = CHR ''/'' then None else try_tail (group1 @ [c]) cs))"

fun match_at :: "string \<Rightarrow> string option" where
  "match_at [] = None"
| "match_at (c # cs) = (if c = CHR ''/'' then try_tail [] cs else None)"

fun regex_search :: "string \<Rightarrow> string option" where
  "regex_search [] = None"
| "regex_search (c # cs) =
     (case match_at (c # cs) of
        Some g \<Rightarrow> Some g
      | None \<Rightarrow> regex_search cs)"

definition getRepoNameFromUrl :: "string \<Rightarrow> string" where
  "getRepoNameFromUrl url =
     (case regex_search url of
        Some g \<Rightarrow> g
      | None \<Rightarrow> ''repository'')"

subsection \<open>generateTreeString\<close>

text \<open>
  The two choices made on \<^verbatim>\<open>isLast\<close>: the marker in front of the name, and what the
  prefix of the children grows by.
\<close>

definition connector :: "bool \<Rightarrow> string" where
  "connector isLast =
     (if isLast then glyph_corner @ glyph_dash @ '' '' else glyph_tee @ glyph_dash @ '' '')"

definition indentation :: "bool \<Rightarrow> string" where
  "indentation isLast = (if isLast then ''   '' else glyph_bar @ ''  '')"

text \<open>
  One line for the node, then the children with the longer prefix;
  \<open>forEach_children\<close> is the \<^verbatim>\<open>forEach\<close>, whose index is the last one exactly when no
  child follows.
\<close>

fun generateTreeString :: "FileTree \<Rightarrow> string \<Rightarrow> bool \<Rightarrow> string"
  and forEach_children :: "FileTree list \<Rightarrow> string \<Rightarrow> string" where
  "generateTreeString (FileTree n t cs) prefix isLast =
     (let marker = connector isLast;
          tree = prefix @ marker @ n @ [LF]
      in case cs of
           None \<Rightarrow> tree
         | Some ch \<Rightarrow>
             (let childPrefix = prefix @ indentation isLast
              in tree @ forEach_children ch childPrefix))"
| "forEach_children [] childPrefix = []"
| "forEach_children (child # rest) childPrefix =
     generateTreeString child childPrefix (rest = []) @ forEach_children rest childPrefix"

subsection \<open>buildFileTree\<close>

text \<open>
  The comparator handed to \<^verbatim>\<open>items.sort\<close>. \<^verbatim>\<open>a.localeCompare(b)\<close> depends on the
  collation of the platform and is a parameter throughout. An entry is a name with
  what \<^verbatim>\<open>fs.statSync\<close> finds under it.
\<close>

definition compareItems :: "(string \<Rightarrow> string \<Rightarrow> int) \<Rightarrow> string \<times> fsnode \<Rightarrow> string \<times> fsnode \<Rightarrow> int" where
  "compareItems localeCompare a b =
     (let aIsDir = isDirectory (snd a);
          bIsDir = isDirectory (snd b)
      in if aIsDir \<and> \<not> bIsDir then - 1
         else if \<not> aIsDir \<and> bIsDir then 1
         else localeCompare (fst a) (fst b))"

definition sortedItems ::
  "(string \<Rightarrow> string \<Rightarrow> int) \<Rightarrow> (string \<times> fsnode) list \<Rightarrow> (string \<times> fsnode) list" where
  "sortedItems localeCompare items = sort_with (compareItems localeCompare) items"

text \<open>
  The unfiltered variant. \<open>forItems_unfiltered\<close> is the \<^verbatim>\<open>for\<close> loop over the sorted
  names, with \<^verbatim>\<open>structure.children\<close> as \<open>cs\<close>. The comparator and the loop
  call \<^verbatim>\<open>fs.statSync\<close> on every entry of the listing before the first descent, so
  an entry whose \<^verbatim>\<open>statSync\<close> throws ends the call at once. Sorting rearranges
  the listing only, so the walk still descends: the termination proof.
\<close>

function buildFileTree_unfiltered ::
    "(string \<Rightarrow> string \<Rightarrow> int) \<Rightarrow> string list \<Rightarrow> string \<Rightarrow> fsnode \<Rightarrow> error + FileTree"
  and forItems_unfiltered ::
    "(string \<Rightarrow> string \<Rightarrow> int) \<Rightarrow> string list \<Rightarrow> (string \<times> fsnode) list \<Rightarrow> FileTree list
       \<Rightarrow> error + FileTree list" where
  "buildFileTree_unfiltered localeCompare excludeDirs repoName (Dir items) =
     (if list_ex (\<lambda>i. statFails (snd i)) items then Inl StatFailed
      else (case forItems_unfiltered localeCompare excludeDirs (sortedItems localeCompare items) [] of
              Inl e \<Rightarrow> Inl e
            | Inr cs \<Rightarrow> Inr (FileTree repoName TDirectory (Some cs))))"
| "buildFileTree_unfiltered localeCompare excludeDirs repoName (File c) = Inl ReaddirFailed"
| "buildFileTree_unfiltered localeCompare excludeDirs repoName Unlistable = Inl ReaddirFailed"
| "buildFileTree_unfiltered localeCompare excludeDirs repoName Broken = Inl ReaddirFailed"
| "forItems_unfiltered localeCompare excludeDirs [] cs = Inr cs"
| "forItems_unfiltered localeCompare excludeDirs ((item, node) # rest) cs =
     (if statFails node then Inl StatFailed
      else if isDirectory node then
        (if item \<notin> set excludeDirs then
           (case buildFileTree_unfiltered localeCompare excludeDirs item node of
              Inl e \<Rightarrow> Inl e
            | Inr childTree \<Rightarrow>
                forItems_unfiltered localeCompare excludeDirs rest (cs @ [childTree]))
         else forItems_unfiltered localeCompare excludeDirs rest cs)
      else forItems_unfiltered localeCompare excludeDirs rest (cs @ [FileTree item TFile None]))"
  by pat_completeness auto
termination
proof -
  have ins: "size_list f (insert_sorted c x ys) = size_list f (x # ys)"
    for f :: "string \<times> fsnode \<Rightarrow> nat" and c x ys
    by (induction ys) auto
  have "size_list f (sort_with c xs) = size_list f xs"
    for f :: "string \<times> fsnode \<Rightarrow> nat" and c xs
    by (induction xs) (auto simp: sort_with_def ins)
  then show ?thesis
    by (relation "measure (\<lambda>x. case x of
          Inl (l, e, r, node) \<Rightarrow> 2 * size node
        | Inr (l, e, items, cs) \<Rightarrow> 2 * size_list (size_prod (\<lambda>x. 0) size) items + 1)")
       (auto simp: sortedItems_def)
qed

text \<open>
  The filtered variant: \<^verbatim>\<open>!includeExtensions || includeExtensions.map((e) => e.toLowerCase()).includes(ext)\<close>
  decides on a file, and a subdirectory is pushed only when its own tree has children.
\<close>

definition extensionIncluded :: "(string \<Rightarrow> string) \<Rightarrow> string list option \<Rightarrow> string \<Rightarrow> bool" where
  "extensionIncluded toLowerCase includeExtensions ext =
     (case includeExtensions of
        None \<Rightarrow> True
      | Some exts \<Rightarrow> ext \<in> set (map toLowerCase exts))"

function buildFileTree_filtered ::
    "(string \<Rightarrow> string) \<Rightarrow> (string \<Rightarrow> string \<Rightarrow> int) \<Rightarrow> string list \<Rightarrow> string \<Rightarrow> string list option
       \<Rightarrow> fsnode \<Rightarrow> error + FileTree"
  and forItems_filtered ::
    "(string \<Rightarrow> string) \<Rightarrow> (string \<Rightarrow> string \<Rightarrow> int) \<Rightarrow> string list \<Rightarrow> string list option
       \<Rightarrow> (string \<times> fsnode) list \<Rightarrow> FileTree list \<Rightarrow> error + FileTree list" where
  "buildFileTree_filtered toLowerCase localeCompare excludeDirs repoName includeExtensions (Dir items) =
     (if list_ex (\<lambda>i. statFails (snd i)) items then Inl StatFailed
      else (case forItems_filtered toLowerCase localeCompare excludeDirs includeExtensions (sortedItems localeCompare items) [] of
              Inl e \<Rightarrow> Inl e
            | Inr cs \<Rightarrow> Inr (FileTree repoName TDirectory (Some cs))))"
| "buildFileTree_filtered toLowerCase localeCompare excludeDirs repoName includeExtensions (File c) = Inl ReaddirFailed"
| "buildFileTree_filtered toLowerCase localeCompare excludeDirs repoName includeExtensions Unlistable = Inl ReaddirFailed"
| "buildFileTree_filtered toLowerCase localeCompare excludeDirs repoName includeExtensions Broken = Inl ReaddirFailed"
| "forItems_filtered toLowerCase localeCompare excludeDirs includeExtensions [] cs = Inr cs"
| "forItems_filtered toLowerCase localeCompare excludeDirs includeExtensions ((item, node) # rest) cs =
     (if statFails node then Inl StatFailed
      else if isDirectory node then
        (if item \<notin> set excludeDirs then
           (case buildFileTree_filtered toLowerCase localeCompare excludeDirs item includeExtensions node of
              Inl e \<Rightarrow> Inl e
            | Inr childTree \<Rightarrow>
                if children childTree \<noteq> None \<and> length (the (children childTree)) > 0 then
                  forItems_filtered toLowerCase localeCompare excludeDirs includeExtensions rest (cs @ [childTree])
                else forItems_filtered toLowerCase localeCompare excludeDirs includeExtensions rest cs)
         else forItems_filtered toLowerCase localeCompare excludeDirs includeExtensions rest cs)
      else (let ext = toLowerCase (extname item)
            in if extensionIncluded toLowerCase includeExtensions ext then
                 forItems_filtered toLowerCase localeCompare excludeDirs includeExtensions rest
                   (cs @ [FileTree item TFile None])
               else forItems_filtered toLowerCase localeCompare excludeDirs includeExtensions rest cs))"
  by pat_completeness auto
termination
proof -
  have ins: "size_list f (insert_sorted c x ys) = size_list f (x # ys)"
    for f :: "string \<times> fsnode \<Rightarrow> nat" and c x ys
    by (induction ys) auto
  have "size_list f (sort_with c xs) = size_list f xs"
    for f :: "string \<times> fsnode \<Rightarrow> nat" and c xs
    by (induction xs) (auto simp: sort_with_def ins)
  then show ?thesis
    by (relation "measure (\<lambda>x. case x of
          Inl (w, l, e, r, i, node) \<Rightarrow> 2 * size node
        | Inr (w, l, e, i, items, cs) \<Rightarrow> 2 * size_list (size_prod (\<lambda>x. 0) size) items + 1)")
       (auto simp: sortedItems_def)
qed

subsection \<open>isTextFile and processDirectory\<close>

definition textExtensions :: "string list" where
  "textExtensions =
     [''.ts'', ''.js'', ''.jsx'', ''.tsx'', ''.html'', ''.css'', ''.scss'', ''.less'', ''.json'',
      ''.md'', ''.txt'', ''.yml'', ''.yaml'', ''.xml'', ''.csv'', ''.py'', ''.java'', ''.rb'', ''.php'',
      ''.c'', ''.cpp'', ''.h'', ''.hpp'', ''.sh'', ''.rs'']"

definition isTextFile :: "(string \<Rightarrow> string) \<Rightarrow> string \<Rightarrow> bool" where
  "isTextFile toLowerCase extension = (toLowerCase extension \<in> set textExtensions)"

text \<open>
  The test in front of \<^verbatim>\<open>fs.readFileSync\<close>, the only place where the two variants of
  \<^verbatim>\<open>processDirectory\<close> differ.
\<close>

definition accepts_unfiltered :: "(string \<Rightarrow> string) \<Rightarrow> string list \<Rightarrow> string \<Rightarrow> bool" where
  "accepts_unfiltered toLowerCase excludeFiles item =
     (let ext = extname item
      in item \<notin> set excludeFiles \<and> isTextFile toLowerCase ext)"

definition accepts_filtered ::
  "(string \<Rightarrow> string) \<Rightarrow> string list \<Rightarrow> string list option \<Rightarrow> string \<Rightarrow> bool" where
  "accepts_filtered toLowerCase excludeFiles includeExtensions item =
     (let ext = toLowerCase (extname item)
      in item \<notin> set excludeFiles \<and> extensionIncluded toLowerCase includeExtensions ext)"

text \<open>
  The header comment of a file:
  \<^verbatim>\<open>`\n// File: ${fullPath.replace(tempDir + "/", repoName + "/")}\n`\<close>.
\<close>

definition fileHeader :: "string \<Rightarrow> string \<Rightarrow> string \<Rightarrow> string" where
  "fileHeader tempDir repoName fullPath =
     [LF] @ ''// File: '' @ replace fullPath (tempDir @ ''/'') (repoName @ ''/'') @ [LF]"

text \<open>\<^verbatim>\<open>fs.readFileSync(fullPath, "utf8")\<close>, reached for files only.\<close>

fun readFileSync :: "fsnode \<Rightarrow> error + string" where
  "readFileSync (File (Some bytes)) = Inr (utf8_text bytes)"
| "readFileSync node = Inl ReadFailed"

text \<open>
  \<^verbatim>\<open>processDirectory\<close> is a closure over \<^verbatim>\<open>tempDir\<close>, \<^verbatim>\<open>repoName\<close>,
  \<^verbatim>\<open>excludeDirs\<close> and the buffer \<^verbatim>\<open>mergedContent\<close>, which it returns grown.
  It walks the listing as \<^verbatim>\<open>fs.readdirSync\<close> gives it.
\<close>

fun processDirectory ::
    "(string \<Rightarrow> bool) \<Rightarrow> string \<Rightarrow> string \<Rightarrow> string list \<Rightarrow> string \<Rightarrow> fsnode \<Rightarrow> string \<Rightarrow> error + string"
  and forItems_process ::
    "(string \<Rightarrow> bool) \<Rightarrow> string \<Rightarrow> string \<Rightarrow> string list \<Rightarrow> string \<Rightarrow> (string \<times> fsnode) list \<Rightarrow> string
       \<Rightarrow> error + string" where
  "processDirectory accepts tempDir repoName excludeDirs directory (Dir items) mergedContent =
     forItems_process accepts tempDir repoName excludeDirs directory items mergedContent"
| "processDirectory accepts tempDir repoName excludeDirs directory (File c) mergedContent = Inl ReaddirFailed"
| "processDirectory accepts tempDir repoName excludeDirs directory Unlistable mergedContent = Inl ReaddirFailed"
| "processDirectory accepts tempDir repoName excludeDirs directory Broken mergedContent = Inl ReaddirFailed"
| "forItems_process accepts tempDir repoName excludeDirs directory [] mergedContent = Inr mergedContent"
| "forItems_process accepts tempDir repoName excludeDirs directory ((item, node) # rest) mergedContent =
     (let fullPath = path_join directory item
      in if statFails node then Inl StatFailed
         else if isDirectory node then
           (if item \<notin> set excludeDirs then
              (case processDirectory accepts tempDir repoName excludeDirs fullPath node mergedContent of
                 Inl e \<Rightarrow> Inl e
               | Inr mergedContent' \<Rightarrow>
                   forItems_process accepts tempDir repoName excludeDirs directory rest mergedContent')
            else forItems_process accepts tempDir repoName excludeDirs directory rest mergedContent)
         else if accepts item then
           (case readFileSync node of
              Inl e \<Rightarrow> Inl e
            | Inr content \<Rightarrow>
                forItems_process accepts tempDir repoName excludeDirs directory rest
                  (mergedContent @ fileHeader tempDir repoName fullPath @ content @ [LF]))
         else forItems_process accepts tempDir repoName excludeDirs directory rest mergedContent)"

subsection \<open>mergeRepositoryFiles\<close>

text \<open>
  \<^verbatim>\<open>interface Options\<close>; a field that is left out is \<open>None\<close>, and the destructuring
  puts the default in its place. The filtered variant has the allow-list in addition.
\<close>

record Options =
  opt_excludeDirs :: "string list option"
  opt_excludeFiles :: "string list option"
  opt_outputPath :: "string option"

record Options_filtered = Options +
  opt_includeExtensions :: "string list option"

definition default_excludeDirs :: "string list" where
  "default_excludeDirs = [''node_modules'', ''.git'', ''dist'', ''build'']"

definition default_excludeFiles :: "string list" where
  "default_excludeFiles = [''.env'', ''.gitignore'', ''package-lock.json'']"

definition default_outputPath :: string where
  "default_outputPath = ''merged-output.txt''"

definition orDefault :: "'a option \<Rightarrow> 'a \<Rightarrow> 'a" where
  "orDefault v d = (case v of None \<Rightarrow> d | Some x \<Rightarrow> x)"

text \<open>
  What the run can change outside itself: the entry under the name \<^verbatim>\<open>tempDir\<close>, and
  the files elsewhere, by path. \<open>writeCalls\<close> records each call of
  \<^verbatim>\<open>fs.writeFileSync\<close> with its path and data. The output path is taken to lie
  outside the temporary directory.
\<close>

record world =
  tempDirNode :: "fsnode option"
  files :: "string \<Rightarrow> string option"
  writeCalls :: "(string \<times> string) list"

text \<open>
  The three calls whose outcome the environment decides. \<^verbatim>\<open>git clone\<close> either leaves
  the repository under \<^verbatim>\<open>tempDir\<close> or fails, leaving there whatever it leaves
  (nothing, or a partial directory). \<^verbatim>\<open>fs.writeFileSync\<close> either replaces the file's
  content by the data or throws, leaving the file in some state. \<^verbatim>\<open>fs.rmSync\<close> either
  removes the directory with all that is in it or throws (a directory in it that may
  not be listed or written to is enough), leaving the part it did not remove.
\<close>

datatype clone_outcome = Cloned fsnode | CloneAborted "fsnode option"

datatype write_outcome = Written | WriteAborted "string option"

datatype rm_outcome = Removed | RemoveAborted fsnode

definition git_clone :: "clone_outcome \<Rightarrow> world \<Rightarrow> (error + unit) \<times> world" where
  "git_clone outcome w =
     (case outcome of
        Cloned root \<Rightarrow> (Inr (), w\<lparr>tempDirNode := Some root\<rparr>)
      | CloneAborted left \<Rightarrow> (Inl CloneFailed, w\<lparr>tempDirNode := left\<rparr>))"

definition writeFileSync :: "write_outcome \<Rightarrow> string \<Rightarrow> string \<Rightarrow> world \<Rightarrow> (error + unit) \<times> world" where
  "writeFileSync outcome path data w =
     (case outcome of
        Written \<Rightarrow>
          (Inr (), w\<lparr>files := (files w)(path := Some data), writeCalls := writeCalls w @ [(path, data)]\<rparr>)
      | WriteAborted left \<Rightarrow>
          (Inl WriteFailed, w\<lparr>files := (files w)(path := left), writeCalls := writeCalls w @ [(path, data)]\<rparr>))"

definition existsSync_tempDir :: "world \<Rightarrow> bool" where
  "existsSync_tempDir w = (tempDirNode w \<noteq> None)"

text \<open>\<^verbatim>\<open>fs.rmSync(tempDir, { recursive: true, force: true })\<close>.\<close>

definition rmSync_tempDir :: "rm_outcome \<Rightarrow> world \<Rightarrow> (error + unit) \<times> world" where
  "rmSync_tempDir outcome w =
     (case outcome of
        Removed \<Rightarrow> (Inr (), w\<lparr>tempDirNode := None\<rparr>)
      | RemoveAborted left \<Rightarrow> (Inl RemoveFailed, w\<lparr>tempDirNode := Some left\<rparr>))"

text \<open>What the walks find under \<^verbatim>\<open>tempDir\<close>; a missing directory cannot be read.\<close>

definition tempDirRoot :: "world \<Rightarrow> fsnode" where
  "tempDirRoot w = (case tempDirNode w of None \<Rightarrow> Broken | Some root \<Rightarrow> root)"

text \<open>The tree block: the rendering without its first two lines, under the name line.\<close>

definition treeString :: "string \<Rightarrow> FileTree \<Rightarrow> string" where
  "treeString repoName fileTree =
     repoName @ ''/'' @ [LF] @ join_nl (slice 2 (split_nl (generateTreeString fileTree [] True)))"

definition initialContent :: "string \<Rightarrow> string \<Rightarrow> string \<Rightarrow> string" where
  "initialContent githubUrl isoTime tree =
     ''// Source: '' @ githubUrl @ [LF]
       @ ''// Merged on: '' @ isoTime @ [LF, LF]
       @ ''/*'' @ [LF]
       @ tree
       @ ''*/'' @ [LF, LF]"

text \<open>
  The \<^verbatim>\<open>try\<close> block after the clone, up to the call of \<^verbatim>\<open>fs.writeFileSync\<close>: both
  walks over the same directory, giving the buffer to write.
\<close>

definition mergedContent_unfiltered ::
  "(string \<Rightarrow> string) \<Rightarrow> (string \<Rightarrow> string \<Rightarrow> int) \<Rightarrow> string \<Rightarrow> string list \<Rightarrow> string list \<Rightarrow> string \<Rightarrow> string \<Rightarrow> string
     \<Rightarrow> fsnode \<Rightarrow> error + string" where
  "mergedContent_unfiltered toLowerCase localeCompare githubUrl excludeDirs excludeFiles tempDir repoName isoTime root =
     (case buildFileTree_unfiltered localeCompare excludeDirs repoName root of
        Inl e \<Rightarrow> Inl e
      | Inr fileTree \<Rightarrow>
          processDirectory (accepts_unfiltered toLowerCase excludeFiles) tempDir repoName excludeDirs tempDir root
            (initialContent githubUrl isoTime (treeString repoName fileTree)))"

definition mergedContent_filtered ::
  "(string \<Rightarrow> string) \<Rightarrow> (string \<Rightarrow> string \<Rightarrow> int) \<Rightarrow> string \<Rightarrow> string list \<Rightarrow> string list \<Rightarrow> string list option \<Rightarrow> string
     \<Rightarrow> string \<Rightarrow> string \<Rightarrow> fsnode \<Rightarrow> error + string" where
  "mergedContent_filtered toLowerCase localeCompare githubUrl excludeDirs excludeFiles includeExtensions tempDir
       repoName isoTime root =
     (case buildFileTree_filtered toLowerCase localeCompare excludeDirs repoName includeExtensions root of
        Inl e \<Rightarrow> Inl e
      | Inr fileTree \<Rightarrow>
          processDirectory (accepts_filtered toLowerCase excludeFiles includeExtensions) tempDir repoName excludeDirs
            tempDir root (initialContent githubUrl isoTime (treeString repoName fileTree)))"

text \<open>
  The \<^verbatim>\<open>try\<close> block given the buffer computation \<open>content\<close>: clone, compute, write.
  The \<^verbatim>\<open>catch\<close> clause logs and rethrows, so the block's error is the run's error.
\<close>

definition tryBlock ::
  "(fsnode \<Rightarrow> error + string) \<Rightarrow> string \<Rightarrow> clone_outcome \<Rightarrow> write_outcome \<Rightarrow> world
     \<Rightarrow> (error + unit) \<times> world" where
  "tryBlock content outputPath cloneOutcome writeOutcome w =
     (case git_clone cloneOutcome w of
        (Inl e, w1) \<Rightarrow> (Inl e, w1)
      | (Inr u, w1) \<Rightarrow>
          (case content (tempDirRoot w1) of
             Inl e \<Rightarrow> (Inl e, w1)
           | Inr mergedContent \<Rightarrow> writeFileSync writeOutcome outputPath mergedContent w1))"

text \<open>The \<^verbatim>\<open>finally\<close> clause.\<close>

definition finallyBlock :: "rm_outcome \<Rightarrow> world \<Rightarrow> (error + unit) \<times> world" where
  "finallyBlock rmOutcome w = (if existsSync_tempDir w then rmSync_tempDir rmOutcome w else (Inr (), w))"

text \<open>
  \<^verbatim>\<open>try { ... } catch { ... } finally { ... }\<close>: an error thrown in the \<^verbatim>\<open>finally\<close>
  clause takes the place of the outcome of the \<^verbatim>\<open>try\<close> block.
\<close>

definition completion :: "error + unit \<Rightarrow> error + unit \<Rightarrow> error + unit" where
  "completion result cleanup = (case cleanup of Inl e \<Rightarrow> Inl e | Inr u \<Rightarrow> result)"

text \<open>
  The run. \<open>now\<close> is \<^verbatim>\<open>Date.now()\<close> and \<open>isoTime\<close> is
  \<^verbatim>\<open>new Date().toISOString()\<close>. What the run prints on the console is left out.
\<close>

definition mergeRepositoryFiles_unfiltered ::
  "(string \<Rightarrow> string) \<Rightarrow> (string \<Rightarrow> string \<Rightarrow> int) \<Rightarrow> nat \<Rightarrow> string \<Rightarrow> clone_outcome \<Rightarrow> write_outcome
     \<Rightarrow> rm_outcome \<Rightarrow> string \<Rightarrow> Options \<Rightarrow> world \<Rightarrow> (error + unit) \<times> world" where
  "mergeRepositoryFiles_unfiltered toLowerCase localeCompare now isoTime cloneOutcome writeOutcome rmOutcome githubUrl options w =
     (let excludeDirs = orDefault (opt_excludeDirs options) default_excludeDirs;
          excludeFiles = orDefault (opt_excludeFiles options) default_excludeFiles;
          outputPath = orDefault (opt_outputPath options) default_outputPath;
          tempDir = ''temp-'' @ string_of_nat now;
          repoName = getRepoNameFromUrl githubUrl;
          (result, w1) =
            tryBlock
              (mergedContent_unfiltered toLowerCase localeCompare githubUrl excludeDirs excludeFiles tempDir repoName
                 isoTime)
              outputPath cloneOutcome writeOutcome w;
          (cleanup, w2) = finallyBlock rmOutcome w1
      in (completion result cleanup, w2))"

definition mergeRepositoryFiles_filtered ::
  "(string \<Rightarrow> string) \<Rightarrow> (string \<Rightarrow> string \<Rightarrow> int) \<Rightarrow> nat \<Rightarrow> string \<Rightarrow> clone_outcome \<Rightarrow> write_outcome
     \<Rightarrow> rm_outcome \<Rightarrow> string \<Rightarrow> Options_filtered \<Rightarrow> world \<Rightarrow> (error + unit) \<times> world" where
  "mergeRepositoryFiles_filtered toLowerCase localeCompare now isoTime cloneOutcome writeOutcome rmOutcome githubUrl options w =
     (let excludeDirs = orDefault (opt_excludeDirs options) default_excludeDirs;
          excludeFiles = orDefault (opt_excludeFiles options) default_excludeFiles;
          outputPath = orDefault (opt_outputPath options) default_outputPath;
          includeExtensions = opt_includeExtensions options;
          tempDir = ''temp-'' @ string_of_nat now;
          repoName = getRepoNameFromUrl githubUrl;
          (result, w1) =
            tryBlock
              (mergedContent_filtered toLowerCase localeCompare githubUrl excludeDirs excludeFiles includeExtensions
                 tempDir repoName isoTime)
              outputPath cloneOutcome writeOutcome w;
          (cleanup, w2) = finallyBlock rmOutcome w1
      in (completion result cleanup, w2))"

section \<open>Notions used in the statements\<close>

subsection \<open>Trees and their renderings\<close>

text \<open>
  The nodes of a tree, their number, and their names in the order of the rendering,
  each with its depth below the node the count starts from.
\<close>

fun count_nodes :: "FileTree \<Rightarrow> nat"
  and count_nodes_list :: "FileTree list \<Rightarrow> nat" where
  "count_nodes (FileTree n t cs) = Suc (case cs of None \<Rightarrow> 0 | Some ch \<Rightarrow> count_nodes_list ch)"
| "count_nodes_list [] = 0"
| "count_nodes_list (c # rest) = count_nodes c + count_nodes_list rest"

fun nodes_at_depth :: "nat \<Rightarrow> FileTree \<Rightarrow> (nat \<times> string) list"
  and nodes_at_depth_list :: "nat \<Rightarrow> FileTree list \<Rightarrow> (nat \<times> string) list" where
  "nodes_at_depth d (FileTree n t cs) =
     (d, n) # (case cs of None \<Rightarrow> [] | Some ch \<Rightarrow> nodes_at_depth_list (Suc d) ch)"
| "nodes_at_depth_list d [] = []"
| "nodes_at_depth_list d (c # rest) = nodes_at_depth d c @ nodes_at_depth_list d rest"

fun names_without_LF :: "FileTree \<Rightarrow> bool"
  and names_without_LF_list :: "FileTree list \<Rightarrow> bool" where
  "names_without_LF (FileTree n t cs) =
     (LF \<notin> set n \<and> (case cs of None \<Rightarrow> True | Some ch \<Rightarrow> names_without_LF_list ch))"
| "names_without_LF_list [] = True"
| "names_without_LF_list (c # rest) = (names_without_LF c \<and> names_without_LF_list rest)"

text \<open>The lines of a text are what its line feeds end.\<close>

definition line_count :: "string \<Rightarrow> nat" where
  "line_count s = count_list s LF"

text \<open>The text made of the given lines, each ended by a line feed.\<close>

definition terminated :: "string list \<Rightarrow> string" where
  "terminated ls = concat (map (\<lambda>l. l @ [LF]) ls)"

text \<open>
  A line of a node at depth \<open>snd\<close>-named and \<open>fst\<close>-deep, rendered below a call with
  prefix \<open>prefix\<close> at depth \<open>d\<close>: one indentation per level, a marker, the name.
\<close>

definition is_line :: "string \<Rightarrow> nat \<Rightarrow> string \<Rightarrow> nat \<times> string \<Rightarrow> bool" where
  "is_line prefix d l dn =
     (LF \<notin> set l \<and>
      (\<exists>segs b. d + length segs = fst dn \<and> set segs \<subseteq> {indentation True, indentation False} \<and>
         l = prefix @ concat segs @ connector b @ snd dn))"


subsection \<open>Siblings\<close>

text \<open>
  What one entry of a listing contributes to the children of its directory: the whole
  tree of a subdirectory that is descended into (in the filtered variant, if it has
  children), a leaf for a file that is kept, nothing otherwise.
\<close>

definition subtree_unfiltered ::
  "(string \<Rightarrow> string \<Rightarrow> int) \<Rightarrow> string list \<Rightarrow> string \<times> fsnode \<Rightarrow> FileTree list" where
  "subtree_unfiltered localeCompare excludeDirs i =
     (if isDirectory (snd i) then
        (if fst i \<notin> set excludeDirs then
           (case buildFileTree_unfiltered localeCompare excludeDirs (fst i) (snd i) of
              Inl e \<Rightarrow> []
            | Inr childTree \<Rightarrow> [childTree])
         else [])
      else [FileTree (fst i) TFile None])"

definition subtree_filtered ::
  "(string \<Rightarrow> string) \<Rightarrow> (string \<Rightarrow> string \<Rightarrow> int) \<Rightarrow> string list \<Rightarrow> string list option
     \<Rightarrow> string \<times> fsnode \<Rightarrow> FileTree list" where
  "subtree_filtered toLowerCase localeCompare excludeDirs includeExtensions i =
     (if isDirectory (snd i) then
        (if fst i \<notin> set excludeDirs then
           (case buildFileTree_filtered toLowerCase localeCompare excludeDirs (fst i) includeExtensions (snd i) of
              Inl e \<Rightarrow> []
            | Inr childTree \<Rightarrow>
                if children childTree \<noteq> None \<and> length (the (children childTree)) > 0 then [childTree]
                else [])
         else [])
      else if extensionIncluded toLowerCase includeExtensions (toLowerCase (extname (fst i))) then
        [FileTree (fst i) TFile None]
      else [])"

text \<open>
  The order of section 4.1 of the specification on two siblings, the first one earlier:
  either a directory and then a file, or two nodes of one kind of which the earlier one
  is not after the later one in the collation.
\<close>

definition sibling_order :: "(string \<Rightarrow> string \<Rightarrow> int) \<Rightarrow> FileTree \<Rightarrow> FileTree \<Rightarrow> bool" where
  "sibling_order localeCompare a b =
     ((type a = TDirectory \<and> type b = TFile) \<or>
      (type a = type b \<and> localeCompare (name a) (name b) \<le> 0))"

text \<open>
  The name and kind of an entry of a listing, and the entries that the tree builders
  keep: the unfiltered one every file and every directory that is not excluded, the
  filtered one the files of the allow-list and the directories that are not excluded
  and whose own tree has children.
\<close>

definition entry_node :: "string \<times> fsnode \<Rightarrow> string \<times> node_type" where
  "entry_node i = (fst i, if isDirectory (snd i) then TDirectory else TFile)"

definition kept_unfiltered :: "string list \<Rightarrow> string \<times> fsnode \<Rightarrow> bool" where
  "kept_unfiltered excludeDirs i = (if isDirectory (snd i) then fst i \<notin> set excludeDirs else True)"

definition kept_filtered ::
  "(string \<Rightarrow> string) \<Rightarrow> (string \<Rightarrow> string \<Rightarrow> int) \<Rightarrow> string list \<Rightarrow> string list option
     \<Rightarrow> string \<times> fsnode \<Rightarrow> bool" where
  "kept_filtered toLowerCase localeCompare excludeDirs includeExtensions i =
     (if isDirectory (snd i) then
        fst i \<notin> set excludeDirs \<and>
        (case buildFileTree_filtered toLowerCase localeCompare excludeDirs (fst i) includeExtensions (snd i) of
           Inl e \<Rightarrow> False
         | Inr childTree \<Rightarrow> children childTree \<noteq> None \<and> length (the (children childTree)) > 0)
      else extensionIncluded toLowerCase includeExtensions (toLowerCase (extname (fst i))))"

subsection \<open>Paths into the directory and into the tree\<close>

text \<open>
  A path is the list of names from the root down. \<open>fs_has_file\<close>: the path leads
  through directories to a file. \<open>tree_has_file\<close>: the path leads through children to
  a leaf of type \<^verbatim>\<open>file\<close>.
\<close>

fun fs_has_file :: "fsnode \<Rightarrow> string list \<Rightarrow> bool" where
  "fs_has_file node [] = (case node of File c \<Rightarrow> True | _ \<Rightarrow> False)"
| "fs_has_file node (n # ns) =
     (case node of
        Dir items \<Rightarrow> list_ex (\<lambda>i. fst i = n \<and> fs_has_file (snd i) ns) items
      | _ \<Rightarrow> False)"

fun tree_has_file :: "FileTree \<Rightarrow> string list \<Rightarrow> bool" where
  "tree_has_file t [] = (type t = TFile \<and> children t = None)"
| "tree_has_file t (n # ns) =
     (case children t of
        None \<Rightarrow> False
      | Some cs \<Rightarrow> list_ex (\<lambda>c. name c = n \<and> tree_has_file c ns) cs)"

text \<open>
  Every directory node below the root has at least one child.
\<close>

fun pruned :: "FileTree \<Rightarrow> bool"
  and pruned_list :: "FileTree list \<Rightarrow> bool" where
  "pruned (FileTree n t cs) = (case cs of None \<Rightarrow> True | Some ch \<Rightarrow> pruned_list ch)"
| "pruned_list [] = True"
| "pruned_list (c # rest) =
     ((type c = TDirectory \<longrightarrow> children c \<noteq> None \<and> children c \<noteq> Some []) \<and>
      pruned c \<and> pruned_list rest)"

text \<open>
  An entry that the filtered tree builder passes over: a directory whose name is
  excluded, or a file whose extension is not in the allow-list.
\<close>

definition passed_over ::
  "(string \<Rightarrow> string) \<Rightarrow> string list \<Rightarrow> string list option \<Rightarrow> string \<times> fsnode \<Rightarrow> bool" where
  "passed_over toLowerCase excludeDirs includeExtensions i =
     ((isDirectory (snd i) \<and> fst i \<in> set excludeDirs) \<or>
      (\<not> isDirectory (snd i) \<and> \<not> extensionIncluded toLowerCase includeExtensions (toLowerCase (extname (fst i)))))"

subsection \<open>What one sibling contributes to the merged content\<close>

text \<open>
  The text that the walk of one entry appends: for a subdirectory that is descended
  into, all that \<^verbatim>\<open>processDirectory\<close> appends for it; for an accepted file, its header
  and content; nothing otherwise.
\<close>

definition merged_of_item ::
  "(string \<Rightarrow> bool) \<Rightarrow> string \<Rightarrow> string \<Rightarrow> string list \<Rightarrow> string \<Rightarrow> string \<times> fsnode \<Rightarrow> string" where
  "merged_of_item accepts tempDir repoName excludeDirs directory i =
     (if isDirectory (snd i) then
        (if fst i \<notin> set excludeDirs then
           (case processDirectory accepts tempDir repoName excludeDirs (path_join directory (fst i)) (snd i) [] of
              Inl e \<Rightarrow> []
            | Inr appended \<Rightarrow> appended)
         else [])
      else if accepts (fst i) then
        (case readFileSync (snd i) of
           Inl e \<Rightarrow> []
         | Inr content \<Rightarrow> fileHeader tempDir repoName (path_join directory (fst i)) @ content @ [LF])
      else [])"

text \<open>A result of the merger with a text put in front of what it appended.\<close>

definition prepend :: "string \<Rightarrow> error + string \<Rightarrow> error + string" where
  "prepend mc r = (case r of Inl e \<Rightarrow> Inl e | Inr s \<Rightarrow> Inr (mc @ s))"

text \<open>The order of the sort on two entries of a listing, the first one earlier.\<close>

definition listing_order :: "(string \<Rightarrow> string \<Rightarrow> int) \<Rightarrow> string \<times> fsnode \<Rightarrow> string \<times> fsnode \<Rightarrow> bool" where
  "listing_order localeCompare i j =
     ((isDirectory (snd i) \<and> \<not> isDirectory (snd j)) \<or>
      (isDirectory (snd i) = isDirectory (snd j) \<and> localeCompare (fst i) (fst j) \<le> 0))"

subsection \<open>The walks with a record of their visits\<close>

text \<open>
  The three walks once more, each with the list \<open>visited\<close> of the entries it has looked
  at: the loop body puts \<^verbatim>\<open>fullPath\<close> on the list when its \<^verbatim>\<open>fs.statSync(fullPath)\<close>
  has returned. The tree builders get the name of the directory they list, which the
  functions above leave out as they need it for the paths only. In all else they are
  the functions above.
\<close>

function buildFileTree_unfiltered_visiting ::
    "(string \<Rightarrow> string \<Rightarrow> int) \<Rightarrow> string \<Rightarrow> string list \<Rightarrow> string \<Rightarrow> fsnode \<Rightarrow> string list
       \<Rightarrow> (error + FileTree) \<times> string list"
  and forItems_unfiltered_visiting ::
    "(string \<Rightarrow> string \<Rightarrow> int) \<Rightarrow> string \<Rightarrow> string list \<Rightarrow> (string \<times> fsnode) list \<Rightarrow> FileTree list
       \<Rightarrow> string list \<Rightarrow> (error + FileTree list) \<times> string list" where
  "buildFileTree_unfiltered_visiting localeCompare directory excludeDirs repoName (Dir items) visited =
     (if list_ex (\<lambda>i. statFails (snd i)) items then (Inl StatFailed, visited)
      else (case forItems_unfiltered_visiting localeCompare directory excludeDirs
                   (sortedItems localeCompare items) [] visited of
              (Inl e, visited') \<Rightarrow> (Inl e, visited')
            | (Inr cs, visited') \<Rightarrow> (Inr (FileTree repoName TDirectory (Some cs)), visited')))"
| "buildFileTree_unfiltered_visiting localeCompare directory excludeDirs repoName (File c) visited =
     (Inl ReaddirFailed, visited)"
| "buildFileTree_unfiltered_visiting localeCompare directory excludeDirs repoName Unlistable visited =
     (Inl ReaddirFailed, visited)"
| "buildFileTree_unfiltered_visiting localeCompare directory excludeDirs repoName Broken visited =
     (Inl ReaddirFailed, visited)"
| "forItems_unfiltered_visiting localeCompare directory excludeDirs [] cs visited = (Inr cs, visited)"
| "forItems_unfiltered_visiting localeCompare directory excludeDirs ((item, node) # rest) cs visited =
     (let fullPath = path_join directory item
      in if statFails node then (Inl StatFailed, visited)
         else if isDirectory node then
           (if item \<notin> set excludeDirs then
              (case buildFileTree_unfiltered_visiting localeCompare fullPath excludeDirs item node
                      (visited @ [fullPath]) of
                 (Inl e, visited') \<Rightarrow> (Inl e, visited')
               | (Inr childTree, visited') \<Rightarrow>
                   forItems_unfiltered_visiting localeCompare directory excludeDirs rest (cs @ [childTree])
                     visited')
            else forItems_unfiltered_visiting localeCompare directory excludeDirs rest cs
                   (visited @ [fullPath]))
         else forItems_unfiltered_visiting localeCompare directory excludeDirs rest
                (cs @ [FileTree item TFile None]) (visited @ [fullPath]))"
  by pat_completeness auto
termination
proof -
  have ins: "size_list f (insert_sorted c x ys) = size_list f (x # ys)"
    for f :: "string \<times> fsnode \<Rightarrow> nat" and c x ys
    by (induction ys) auto
  have "size_list f (sort_with c xs) = size_list f xs"
    for f :: "string \<times> fsnode \<Rightarrow> nat" and c xs
    by (induction xs) (auto simp: sort_with_def ins)
  then show ?thesis
    by (relation "measure (\<lambda>x. case x of
          Inl (l, d, e, r, node, v) \<Rightarrow> 2 * size node
        | Inr (l, d, e, items, cs, v) \<Rightarrow> 2 * size_list (size_prod (\<lambda>x. 0) size) items + 1)")
       (auto simp: sortedItems_def)
qed

function buildFileTree_filtered_visiting ::
    "(string \<Rightarrow> string) \<Rightarrow> (string \<Rightarrow> string \<Rightarrow> int) \<Rightarrow> string \<Rightarrow> string list \<Rightarrow> string
       \<Rightarrow> string list option \<Rightarrow> fsnode \<Rightarrow> string list \<Rightarrow> (error + FileTree) \<times> string list"
  and forItems_filtered_visiting ::
    "(string \<Rightarrow> string) \<Rightarrow> (string \<Rightarrow> string \<Rightarrow> int) \<Rightarrow> string \<Rightarrow> string list \<Rightarrow> string list option
       \<Rightarrow> (string \<times> fsnode) list \<Rightarrow> FileTree list \<Rightarrow> string list
       \<Rightarrow> (error + FileTree list) \<times> string list" where
  "buildFileTree_filtered_visiting toLowerCase localeCompare directory excludeDirs repoName includeExtensions
       (Dir items) visited =
     (if list_ex (\<lambda>i. statFails (snd i)) items then (Inl StatFailed, visited)
      else (case forItems_filtered_visiting toLowerCase localeCompare directory excludeDirs includeExtensions
                   (sortedItems localeCompare items) [] visited of
              (Inl e, visited') \<Rightarrow> (Inl e, visited')
            | (Inr cs, visited') \<Rightarrow> (Inr (FileTree repoName TDirectory (Some cs)), visited')))"
| "buildFileTree_filtered_visiting toLowerCase localeCompare directory excludeDirs repoName includeExtensions
       (File c) visited =
     (Inl ReaddirFailed, visited)"
| "buildFileTree_filtered_visiting toLowerCase localeCompare directory excludeDirs repoName includeExtensions
       Unlistable visited =
     (Inl ReaddirFailed, visited)"
| "buildFileTree_filtered_visiting toLowerCase localeCompare directory excludeDirs repoName includeExtensions
       Broken visited =
     (Inl ReaddirFailed, visited)"
| "forItems_filtered_visiting toLowerCase localeCompare directory excludeDirs includeExtensions [] cs visited =
     (Inr cs, visited)"
| "forItems_filtered_visiting toLowerCase localeCompare directory excludeDirs includeExtensions
       ((item, node) # rest) cs visited =
     (let fullPath = path_join directory item
      in if statFails node then (Inl StatFailed, visited)
         else if isDirectory node then
           (if item \<notin> set excludeDirs then
              (case buildFileTree_filtered_visiting toLowerCase localeCompare fullPath excludeDirs item
                      includeExtensions node (visited @ [fullPath]) of
                 (Inl e, visited') \<Rightarrow> (Inl e, visited')
               | (Inr childTree, visited') \<Rightarrow>
                   if children childTree \<noteq> None \<and> length (the (children childTree)) > 0 then
                     forItems_filtered_visiting toLowerCase localeCompare directory excludeDirs
                       includeExtensions rest (cs @ [childTree]) visited'
                   else forItems_filtered_visiting toLowerCase localeCompare directory excludeDirs
                          includeExtensions rest cs visited')
            else forItems_filtered_visiting toLowerCase localeCompare directory excludeDirs includeExtensions
                   rest cs (visited @ [fullPath]))
         else (let ext = toLowerCase (extname item)
               in if extensionIncluded toLowerCase includeExtensions ext then
                    forItems_filtered_visiting toLowerCase localeCompare directory excludeDirs
                      includeExtensions rest (cs @ [FileTree item TFile None]) (visited @ [fullPath])
                  else forItems_filtered_visiting toLowerCase localeCompare directory excludeDirs
                         includeExtensions rest cs (visited @ [fullPath])))"
  by pat_completeness auto
termination
proof -
  have ins: "size_list f (insert_sorted c x ys) = size_list f (x # ys)"
    for f :: "string \<times> fsnode \<Rightarrow> nat" and c x ys
    by (induction ys) auto
  have "size_list f (sort_with c xs) = size_list f xs"
    for f :: "string \<times> fsnode \<Rightarrow> nat" and c xs
    by (induction xs) (auto simp: sort_with_def ins)
  then show ?thesis
    by (relation "measure (\<lambda>x. case x of
          Inl (w, l, d, e, r, i, node, v) \<Rightarrow> 2 * size node
        | Inr (w, l, d, e, i, items, cs, v) \<Rightarrow> 2 * size_list (size_prod (\<lambda>x. 0) size) items + 1)")
       (auto simp: sortedItems_def)
qed

fun processDirectory_visiting ::
    "(string \<Rightarrow> bool) \<Rightarrow> string \<Rightarrow> string \<Rightarrow> string list \<Rightarrow> string \<Rightarrow> fsnode \<Rightarrow> string \<Rightarrow> string list
       \<Rightarrow> (error + string) \<times> string list"
  and forItems_process_visiting ::
    "(string \<Rightarrow> bool) \<Rightarrow> string \<Rightarrow> string \<Rightarrow> string list \<Rightarrow> string \<Rightarrow> (string \<times> fsnode) list \<Rightarrow> string
       \<Rightarrow> string list \<Rightarrow> (error + string) \<times> string list" where
  "processDirectory_visiting accepts tempDir repoName excludeDirs directory (Dir items) mergedContent visited =
     forItems_process_visiting accepts tempDir repoName excludeDirs directory items mergedContent visited"
| "processDirectory_visiting accepts tempDir repoName excludeDirs directory (File c) mergedContent visited =
     (Inl ReaddirFailed, visited)"
| "processDirectory_visiting accepts tempDir repoName excludeDirs directory Unlistable mergedContent visited =
     (Inl ReaddirFailed, visited)"
| "processDirectory_visiting accepts tempDir repoName excludeDirs directory Broken mergedContent visited =
     (Inl ReaddirFailed, visited)"
| "forItems_process_visiting accepts tempDir repoName excludeDirs directory [] mergedContent visited =
     (Inr mergedContent, visited)"
| "forItems_process_visiting accepts tempDir repoName excludeDirs directory ((item, node) # rest)
       mergedContent visited =
     (let fullPath = path_join directory item
      in if statFails node then (Inl StatFailed, visited)
         else if isDirectory node then
           (if item \<notin> set excludeDirs then
              (case processDirectory_visiting accepts tempDir repoName excludeDirs fullPath node mergedContent
                      (visited @ [fullPath]) of
                 (Inl e, visited') \<Rightarrow> (Inl e, visited')
               | (Inr mergedContent', visited') \<Rightarrow>
                   forItems_process_visiting accepts tempDir repoName excludeDirs directory rest mergedContent'
                     visited')
            else forItems_process_visiting accepts tempDir repoName excludeDirs directory rest mergedContent
                   (visited @ [fullPath]))
         else if accepts item then
           (case readFileSync node of
              Inl e \<Rightarrow> (Inl e, visited @ [fullPath])
            | Inr content \<Rightarrow>
                forItems_process_visiting accepts tempDir repoName excludeDirs directory rest
                  (mergedContent @ fileHeader tempDir repoName fullPath @ content @ [LF])
                  (visited @ [fullPath]))
         else forItems_process_visiting accepts tempDir repoName excludeDirs directory rest mergedContent
                (visited @ [fullPath]))"

text \<open>
  The routes of the specification through a directory, depth first: the entries in
  their order, each followed at once by the route through it when it is a directory
  that is not excluded, and only then the next entry. \<open>depth_first_sorted\<close> takes the
  entries of every directory in the order of the sort, \<open>depth_first_listed\<close> in the
  order of the listing.
\<close>

function depth_first_sorted :: "(string \<Rightarrow> string \<Rightarrow> int) \<Rightarrow> string \<Rightarrow> string list \<Rightarrow> fsnode \<Rightarrow> string list"
  and depth_first_sorted_items ::
    "(string \<Rightarrow> string \<Rightarrow> int) \<Rightarrow> string \<Rightarrow> string list \<Rightarrow> (string \<times> fsnode) list \<Rightarrow> string list" where
  "depth_first_sorted localeCompare directory excludeDirs (Dir items) =
     depth_first_sorted_items localeCompare directory excludeDirs (sortedItems localeCompare items)"
| "depth_first_sorted localeCompare directory excludeDirs (File c) = []"
| "depth_first_sorted localeCompare directory excludeDirs Unlistable = []"
| "depth_first_sorted localeCompare directory excludeDirs Broken = []"
| "depth_first_sorted_items localeCompare directory excludeDirs [] = []"
| "depth_first_sorted_items localeCompare directory excludeDirs ((item, node) # rest) =
     path_join directory item
       # (if isDirectory node \<and> item \<notin> set excludeDirs then
            depth_first_sorted localeCompare (path_join directory item) excludeDirs node
          else [])
       @ depth_first_sorted_items localeCompare directory excludeDirs rest"
  by pat_completeness auto
termination
proof -
  have ins: "size_list f (insert_sorted c x ys) = size_list f (x # ys)"
    for f :: "string \<times> fsnode \<Rightarrow> nat" and c x ys
    by (induction ys) auto
  have "size_list f (sort_with c xs) = size_list f xs"
    for f :: "string \<times> fsnode \<Rightarrow> nat" and c xs
    by (induction xs) (auto simp: sort_with_def ins)
  then show ?thesis
    by (relation "measure (\<lambda>x. case x of
          Inl (l, d, e, node) \<Rightarrow> 2 * size node
        | Inr (l, d, e, items) \<Rightarrow> 2 * size_list (size_prod (\<lambda>x. 0) size) items + 1)")
       (auto simp: sortedItems_def)
qed

fun depth_first_listed :: "string \<Rightarrow> string list \<Rightarrow> fsnode \<Rightarrow> string list"
  and depth_first_listed_items :: "string \<Rightarrow> string list \<Rightarrow> (string \<times> fsnode) list \<Rightarrow> string list" where
  "depth_first_listed directory excludeDirs (Dir items) = depth_first_listed_items directory excludeDirs items"
| "depth_first_listed directory excludeDirs (File c) = []"
| "depth_first_listed directory excludeDirs Unlistable = []"
| "depth_first_listed directory excludeDirs Broken = []"
| "depth_first_listed_items directory excludeDirs [] = []"
| "depth_first_listed_items directory excludeDirs ((item, node) # rest) =
     path_join directory item
       # (if isDirectory node \<and> item \<notin> set excludeDirs then
            depth_first_listed (path_join directory item) excludeDirs node
          else [])
       @ depth_first_listed_items directory excludeDirs rest"

text \<open>
  \<open>walked visited' visited route completed\<close>: a walk that began with the record
  \<open>visited\<close> and ended with \<open>visited'\<close> went along \<open>route\<close>, to its end if it
  completed and to the place where it failed otherwise.
\<close>

definition walked :: "string list \<Rightarrow> string list \<Rightarrow> string list \<Rightarrow> bool \<Rightarrow> bool" where
  "walked visited' visited route completed =
     (if completed then visited' = visited @ route
      else \<exists>done rest. visited' = visited @ done \<and> route = done @ rest)"

subsection \<open>Files of the repository and their blocks in the merged content\<close>

text \<open>
  \<open>fs_has_content\<close>: the path leads through directories to a readable file with the
  given bytes. \<open>distinct_names\<close>: no directory lists a name twice.
\<close>

fun fs_has_content :: "fsnode \<Rightarrow> string list \<Rightarrow> string \<Rightarrow> bool" where
  "fs_has_content node [] content = (node = File (Some content))"
| "fs_has_content node (n # ns) content =
     (case node of
        Dir items \<Rightarrow> list_ex (\<lambda>i. fst i = n \<and> fs_has_content (snd i) ns content) items
      | _ \<Rightarrow> False)"


text \<open>
  Well-formed UTF-8, by the table of the Unicode standard (Table 3-7): the ranges of
  the bytes of each sequence, by its first byte.
\<close>

definition byte_in :: "char \<Rightarrow> nat \<Rightarrow> nat \<Rightarrow> bool" where
  "byte_in c lower upper = (lower \<le> of_char c \<and> (of_char c :: nat) \<le> upper)"

fun well_formed_utf8 :: "string \<Rightarrow> bool" where
  "well_formed_utf8 [] = True"
| "well_formed_utf8 (b # bs) =
     (if byte_in b 0x00 0x7F then well_formed_utf8 bs
      else if byte_in b 0xC2 0xDF then
        (case bs of
           c # rest \<Rightarrow> byte_in c 0x80 0xBF \<and> well_formed_utf8 rest
         | _ \<Rightarrow> False)
      else if byte_in b 0xE0 0xEF then
        (case bs of
           c # d # rest \<Rightarrow>
             byte_in c (if byte_in b 0xE0 0xE0 then 0xA0 else 0x80) (if byte_in b 0xED 0xED then 0x9F else 0xBF) \<and>
             byte_in d 0x80 0xBF \<and> well_formed_utf8 rest
         | _ \<Rightarrow> False)
      else if byte_in b 0xF0 0xF4 then
        (case bs of
           c # d # e # rest \<Rightarrow>
             byte_in c (if byte_in b 0xF0 0xF0 then 0x90 else 0x80) (if byte_in b 0xF4 0xF4 then 0x8F else 0xBF) \<and>
             byte_in d 0x80 0xBF \<and> byte_in e 0x80 0xBF \<and> well_formed_utf8 rest
         | _ \<Rightarrow> False)
      else False)"





subsection \<open>Files that cannot be read\<close>


subsection \<open>Sample inputs\<close>

text \<open>
  A lower-casing to run the definitions with, that of the Latin letters \<open>A\<close> to \<open>Z\<close>
  (every other byte stays as it is), and a collation: names ordered by their bytes.
\<close>

definition lower_ascii :: "string \<Rightarrow> string" where
  "lower_ascii s =
     map (\<lambda>c. if (65::nat) \<le> of_char c \<and> of_char c \<le> (90::nat) then char_of (of_char c + (32::nat)) else c) s"

fun compare_bytes :: "string \<Rightarrow> string \<Rightarrow> int" where
  "compare_bytes [] [] = 0"
| "compare_bytes [] (y # ys) = - 1"
| "compare_bytes (x # xs) [] = 1"
| "compare_bytes (x # xs) (y # ys) =
     (if (of_char x :: nat) < of_char y then - 1
      else if (of_char y :: nat) < of_char x then 1
      else compare_bytes xs ys)"

text \<open>A small repository and the tree built from it.\<close>

definition example_tree :: FileTree where
  "example_tree =
     FileTree ''repo'' TDirectory
       (Some [FileTree ''src'' TDirectory (Some [FileTree ''index.ts'' TFile None]),
              FileTree ''README.md'' TFile None])"

text \<open>A file whose name holds a line feed.\<close>

definition two_line_name :: string where
  "two_line_name = [CHR ''x'', LF, CHR ''y'']"

definition two_line_listing :: fsnode where
  "two_line_listing = Dir [(two_line_name, File (Some []))]"

definition example_listing :: fsnode where
  "example_listing =
     Dir [(''README.md'', File (Some ''# repo'')),
          (''src'', Dir [(''index.ts'', File (Some ''export {}''))])]"

text \<open>
  The siblings of the specification's example, with a file in the directory \<^verbatim>\<open>A\<close>,
  and the tree to build from them.
\<close>

definition siblings_listing :: fsnode where
  "siblings_listing =
     Dir [(''b.txt'', File (Some ''b'')),
          (''A'', Dir [(''c.txt'', File (Some ''c''))]),
          (''a.txt'', File (Some ''a''))]"

definition siblings_tree :: FileTree where
  "siblings_tree =
     FileTree ''repo'' TDirectory
       (Some [FileTree ''A'' TDirectory (Some [FileTree ''c.txt'' TFile None]),
              FileTree ''a.txt'' TFile None,
              FileTree ''b.txt'' TFile None])"

text \<open>A repository with an excluded file name at the top and another one below.\<close>

definition env_listing :: fsnode where
  "env_listing =
     Dir [(''.env'', File (Some ''KEY=1'')),
          (''src'', Dir [(''.gitignore'', File (Some ''dist''))])]"

text \<open>
  A listing in the order of the names' bytes, as \<^verbatim>\<open>fs.readdirSync\<close> returns it, that is
  not in the order of the sort: the file comes before the directory.
\<close>

definition unsorted_listing :: "(string \<times> fsnode) list" where
  "unsorted_listing =
     [(''a.txt'', File (Some ''a'')),
      (''z'', Dir [(''c.txt'', File (Some ''c''))])]"

text \<open>A file that is not UTF-8: the byte \<open>0xFF\<close> between \<open>a\<close> and \<open>b\<close>.\<close>

definition latin1_listing :: fsnode where
  "latin1_listing = Dir [(''notes.txt'', File (Some [CHR 0x61, CHR 0xFF, CHR 0x62]))]"

text \<open>A repository holding a directory that may not be listed.\<close>

definition locked_listing :: fsnode where
  "locked_listing = Dir [(''README.md'', File (Some ''# repo'')), (''private'', Unlistable)]"


text \<open>A repository with a source file that cannot be read, and a world before the run.\<close>

definition unreadable_listing :: fsnode where
  "unreadable_listing =
     Dir [(''README.md'', File (Some ''# repo'')),
          (''src'', Dir [(''index.ts'', File None)])]"

definition no_options :: Options where
  "no_options = \<lparr>opt_excludeDirs = None, opt_excludeFiles = None, opt_outputPath = None\<rparr>"

definition earlier_world :: world where
  "earlier_world =
     \<lparr>tempDirNode = None,
      files = (\<lambda>p. if p = ''merged-output.txt'' then Some ''earlier output'' else None),
      writeCalls = []\<rparr>"

section \<open>Properties\<close>

subsection \<open>The repository name\<close>

declare try_tail.simps [simp del]

lemma try_tail_stops_at_git:
  "CHR ''/'' \<notin> set s \<Longrightarrow> g @ s \<noteq> [] \<Longrightarrow> try_tail g (s @ ''.git'') = Some (g @ s)"
proof (induction s arbitrary: g)
  case Nil
  then show ?case by (simp add: try_tail.simps)
next
  case (Cons c cs)
  have "try_tail g ((c # cs) @ ''.git'') = try_tail (g @ [c]) (cs @ ''.git'')"
    using Cons.prems(1) by (subst try_tail.simps) auto
  also have "\<dots> = Some ((g @ [c]) @ cs)"
    using Cons.prems(1) by (intro Cons.IH) auto
  finally show ?case by simp
qed

lemma try_tail_runs_to_end:
  "CHR ''/'' \<notin> set s \<Longrightarrow> g @ s \<noteq> [] \<Longrightarrow>
   (\<forall>p q. s = p @ q \<and> g @ p \<noteq> [] \<longrightarrow> q \<noteq> ''.git'') \<Longrightarrow> try_tail g s = Some (g @ s)"
proof (induction s arbitrary: g)
  case Nil
  then show ?case by (simp add: try_tail.simps)
next
  case (Cons c cs)
  have ne: "g \<noteq> [] \<longrightarrow> c # cs \<noteq> ''.git''"
    using Cons.prems(3) [rule_format, of "[]" "c # cs"] by auto
  have step: "try_tail g (c # cs) = try_tail (g @ [c]) cs"
    using Cons.prems(1) ne by (subst try_tail.simps) auto
  have "try_tail (g @ [c]) cs = Some ((g @ [c]) @ cs)"
  proof (rule Cons.IH)
    show "CHR ''/'' \<notin> set cs" using Cons.prems(1) by simp
    show "(g @ [c]) @ cs \<noteq> []" by simp
    show "\<forall>p q. cs = p @ q \<and> (g @ [c]) @ p \<noteq> [] \<longrightarrow> q \<noteq> ''.git''"
      using Cons.prems(3) [rule_format, of "c # p" q for p q] by auto
  qed
  with step show ?case by simp
qed

lemma try_tail_slash_ahead: "try_tail g (a @ CHR ''/'' # b) = None"
proof (induction a arbitrary: g)
  case Nil
  show ?case by (subst try_tail.simps) simp
next
  case (Cons c cs)
  have "c # cs @ CHR ''/'' # b \<noteq> ''.git''"
  proof
    assume "c # cs @ CHR ''/'' # b = ''.git''"
    then have "CHR ''/'' \<in> set ''.git''" by (metis in_set_conv_decomp list.set_intros(2) append_Cons)
    then show False by simp
  qed
  then show ?case using Cons.IH by (subst try_tail.simps) simp
qed

lemma regex_search_last_slash:
  "regex_search (pre @ CHR ''/'' # seg) = try_tail [] seg" if "CHR ''/'' \<notin> set seg" "try_tail [] seg \<noteq> None"
  using that
proof (induction pre)
  case Nil
  then show ?case by (auto split: option.splits)
next
  case (Cons c cs)
  have "match_at (c # cs @ CHR ''/'' # seg) = None"
    by (simp add: try_tail_slash_ahead)
  then show ?case using Cons by simp
qed

lemma regex_search_no_slash: "CHR ''/'' \<notin> set url \<Longrightarrow> regex_search url = None"
  by (induction url) auto

text \<open>
  Claim C8. The name is the part of the URL after its last slash, without a trailing
  \<^verbatim>\<open>.git\<close>: whenever that part \<open>seg\<close> is not empty, \<open>\<dots>/seg.git\<close> gives \<open>seg\<close>, and
  \<open>\<dots>/seg\<close> gives \<open>seg\<close> when \<open>seg\<close> does not itself end in \<^verbatim>\<open>.git\<close> after a
  non-empty stem. A URL without any slash gives the fallback \<^verbatim>\<open>repository\<close>.
\<close>

theorem getRepoNameFromUrl_final_segment:
  "(CHR ''/'' \<notin> set seg \<and> seg \<noteq> [] \<longrightarrow>
      getRepoNameFromUrl (pre @ ''/'' @ seg @ ''.git'') = seg \<and>
      ((\<forall>p. p \<noteq> [] \<longrightarrow> seg \<noteq> p @ ''.git'') \<longrightarrow> getRepoNameFromUrl (pre @ ''/'' @ seg) = seg)) \<and>
   (CHR ''/'' \<notin> set url \<longrightarrow> getRepoNameFromUrl url = ''repository'')"
proof (intro conjI impI)
  assume a: "CHR ''/'' \<notin> set seg \<and> seg \<noteq> []"
  then have t: "try_tail [] (seg @ ''.git'') = Some seg"
    using try_tail_stops_at_git [of seg "[]"] by simp
  have "regex_search (pre @ CHR ''/'' # (seg @ ''.git'')) = try_tail [] (seg @ ''.git'')"
    using a t by (intro regex_search_last_slash) auto
  with t show "getRepoNameFromUrl (pre @ ''/'' @ seg @ ''.git'') = seg"
    by (simp add: getRepoNameFromUrl_def)
next
  assume a: "CHR ''/'' \<notin> set seg \<and> seg \<noteq> []"
    and b: "\<forall>p. p \<noteq> [] \<longrightarrow> seg \<noteq> p @ ''.git''"
  have t: "try_tail [] seg = Some seg"
    using try_tail_runs_to_end [of seg "[]"] a b by auto
  have "regex_search (pre @ CHR ''/'' # seg) = try_tail [] seg"
    using a t by (intro regex_search_last_slash) auto
  with t show "getRepoNameFromUrl (pre @ ''/'' @ seg) = seg"
    by (simp add: getRepoNameFromUrl_def)
next
  assume "CHR ''/'' \<notin> set url"
  then show "getRepoNameFromUrl url = ''repository''"
    by (simp add: getRepoNameFromUrl_def regex_search_no_slash)
qed

text \<open>The three URLs of the specification.\<close>

theorem getRepoNameFromUrl_final_segment_witness:
  "getRepoNameFromUrl ''https://github.com/user/repo.git'' = ''repo'' \<and>
   getRepoNameFromUrl ''git@github.com:user/repo'' = ''repo'' \<and>
   getRepoNameFromUrl ''repo.git'' = ''repository''"
proof -
  have 1: "getRepoNameFromUrl (''https://github.com/user'' @ ''/'' @ ''repo'' @ ''.git'') = ''repo''"
    using getRepoNameFromUrl_final_segment [of "''repo''" "''https://github.com/user''" "[]"] by simp
  have "\<forall>p. p \<noteq> [] \<longrightarrow> ''repo'' \<noteq> p @ ''.git''"
    by (auto simp: append_eq_Cons_conv)
  then have 2: "getRepoNameFromUrl (''git@github.com:user'' @ ''/'' @ ''repo'') = ''repo''"
    using getRepoNameFromUrl_final_segment [of "''repo''" "''git@github.com:user''" "[]"] by simp
  have 3: "getRepoNameFromUrl ''repo.git'' = ''repository''"
    using getRepoNameFromUrl_final_segment [of "[]" "[]" "''repo.git''"] by simp
  from 1 2 3 show ?thesis by simp
qed

subsection \<open>The renderer\<close>

lemma terminated_simps [simp]:
  "terminated [] = []" "terminated (l # ls) = l @ LF # terminated ls"
  "terminated (ls @ ms) = terminated ls @ terminated ms"
  by (simp_all add: terminated_def)

lemma LF_notin_glyphs [simp]:
  "LF \<notin> set (connector b)" "LF \<notin> set (indentation b)"
  by (simp_all add: connector_def indentation_def LF_def glyph_corner_def glyph_dash_def glyph_tee_def glyph_bar_def)

lemma split_nl_nonempty [simp]: "split_nl s \<noteq> []"
  by (induction s) (auto split: list.splits)

lemma split_nl_line: "LF \<notin> set l \<Longrightarrow> split_nl (l @ LF # s) = l # split_nl s"
  by (induction l) (auto split: list.splits)

lemma split_nl_terminated:
  "\<forall>l\<in>set ls. LF \<notin> set l \<Longrightarrow> split_nl (terminated ls) = ls @ [[]]"
  by (induction ls) (auto simp: split_nl_line)

lemma count_list_absent: "a \<notin> set xs \<Longrightarrow> count_list xs a = 0"
  by (induction xs) auto

lemma line_count_terminated:
  "\<forall>l\<in>set ls. LF \<notin> set l \<Longrightarrow> line_count (terminated ls) = length ls"
  by (induction ls) (auto simp: line_count_def count_list_absent)


lemma generateTreeString_unfold:
  "generateTreeString (FileTree n t cs) prefix isLast =
     prefix @ connector isLast @ n @ LF #
       (case cs of None \<Rightarrow> [] | Some ch \<Rightarrow> forEach_children ch (prefix @ indentation isLast))"
  by (simp add: Let_def split: option.splits)

declare generateTreeString.simps(1) [simp del]

declare generateTreeString_unfold [simp]

lemma is_line_deeper:
  "is_line (prefix @ indentation b) (Suc d) l dn \<Longrightarrow> is_line prefix d l dn"
  unfolding is_line_def
proof (elim conjE exE)
  fix segs c
  assume a: "LF \<notin> set l" "Suc d + length segs = fst dn"
    "set segs \<subseteq> {indentation True, indentation False}"
    "l = (prefix @ indentation b) @ concat segs @ connector c @ snd dn"
  have "d + length (indentation b # segs) = fst dn \<and>
        set (indentation b # segs) \<subseteq> {indentation True, indentation False} \<and>
        l = prefix @ concat (indentation b # segs) @ connector c @ snd dn"
    using a by (cases b) auto
  then show "LF \<notin> set l \<and> (\<exists>segs b. d + length segs = fst dn \<and>
      set segs \<subseteq> {indentation True, indentation False} \<and> l = prefix @ concat segs @ connector b @ snd dn)"
    using a(1) by blast
qed

lemma render_lines:
  "LF \<notin> set prefix \<Longrightarrow> names_without_LF t \<Longrightarrow>
     \<exists>ls. generateTreeString t prefix isLast = terminated ls \<and>
          list_all2 (is_line prefix d) ls (nodes_at_depth d t)"
  "LF \<notin> set childPrefix \<Longrightarrow> names_without_LF_list ch \<Longrightarrow>
     \<exists>ls. forEach_children ch childPrefix = terminated ls \<and>
          list_all2 (is_line childPrefix d) ls (nodes_at_depth_list d ch)"
proof (induction t prefix isLast and ch childPrefix arbitrary: d and d
       rule: generateTreeString_forEach_children.induct)
  case (1 n t cs prefix isLast)
  have own: "is_line prefix d (prefix @ connector isLast @ n) (d, n)"
    unfolding is_line_def using 1 by (auto intro!: exI [of _ "[]"])
  show ?case
  proof (cases cs)
    case None
    have "generateTreeString (FileTree n t cs) prefix isLast = terminated [prefix @ connector isLast @ n]"
      using None by (simp add: generateTreeString_unfold)
    moreover have "list_all2 (is_line prefix d) [prefix @ connector isLast @ n] (nodes_at_depth d (FileTree n t cs))"
      using None own by simp
    ultimately show ?thesis by blast
  next
    case (Some ch)
    have "LF \<notin> set (prefix @ indentation isLast)" using 1 by simp
    moreover have "names_without_LF_list ch" using 1 Some by simp
    ultimately obtain ls where ls:
      "forEach_children ch (prefix @ indentation isLast) = terminated ls"
      "list_all2 (is_line (prefix @ indentation isLast) (Suc d)) ls (nodes_at_depth_list (Suc d) ch)"
      using "1.IH" [OF refl refl Some refl, of "Suc d"]
      by (auto simp: indentation_def connector_def)
    have "list_all2 (is_line prefix d) ls (nodes_at_depth_list (Suc d) ch)"
      using ls(2) by (rule list_all2_mono) (rule is_line_deeper)
    then have "list_all2 (is_line prefix d) ((prefix @ connector isLast @ n) # ls)
        (nodes_at_depth d (FileTree n t cs))"
      using own Some by simp
    moreover have "generateTreeString (FileTree n t cs) prefix isLast =
        terminated ((prefix @ connector isLast @ n) # ls)"
      using Some ls(1) by (simp add: generateTreeString_unfold)
    ultimately show ?thesis by blast
  qed
next
  case (2 childPrefix)
  show ?case by (auto intro!: exI [of _ "[]"])
next
  case (3 child rest childPrefix)
  obtain ls1 where ls1: "generateTreeString child childPrefix (rest = []) = terminated ls1"
      "list_all2 (is_line childPrefix d) ls1 (nodes_at_depth d child)"
    using "3.IH"(1) [of d] "3.prems" by auto
  obtain ls2 where ls2: "forEach_children rest childPrefix = terminated ls2"
      "list_all2 (is_line childPrefix d) ls2 (nodes_at_depth_list d rest)"
    using "3.IH"(2) [of d] "3.prems" by auto
  have "forEach_children (child # rest) childPrefix = terminated (ls1 @ ls2)"
    using ls1(1) ls2(1) by simp
  moreover have "list_all2 (is_line childPrefix d) (ls1 @ ls2) (nodes_at_depth_list d (child # rest))"
    using ls1(2) ls2(2) by (simp add: list_all2_appendI)
  ultimately show ?case by blast
qed

lemma is_line_top:
  "is_line prefix 0 l dn \<Longrightarrow>
   (case dn of (d, n) \<Rightarrow> \<exists>segs b. length segs = d \<and> set segs \<subseteq> {indentation True, indentation False} \<and>
      l = prefix @ concat segs @ connector b @ n)"
proof (cases dn)
  case (Pair d n)
  assume "is_line prefix 0 l dn"
  then obtain segs b where "length segs = d" "set segs \<subseteq> {indentation True, indentation False}"
      "l = prefix @ concat segs @ connector b @ n"
    unfolding is_line_def Pair by auto
  then show ?thesis unfolding Pair by blast
qed

lemma length_nodes_at_depth:
  "length (nodes_at_depth d t) = count_nodes t"
  "length (nodes_at_depth_list d ch) = count_nodes_list ch"
  by (induction d t and d ch rule: nodes_at_depth_nodes_at_depth_list.induct)
     (auto split: option.splits)

text \<open>
  Claim C6, amended. For a tree none of whose names holds a line feed, rendered under a
  prefix without one, the output has as many lines as the tree has nodes; the lines
  are those of the nodes in order, and the line of a node at depth \<open>d\<close> is the prefix,
  \<open>d\<close> indentation segments, a marker and the node's name.
\<close>

theorem generateTreeString_one_line_per_node:
  assumes "names_without_LF t" and "LF \<notin> set prefix"
  shows "line_count (generateTreeString t prefix isLast) = count_nodes t \<and>
    (\<exists>ls. split_nl (generateTreeString t prefix isLast) = ls @ [[]] \<and>
       list_all2
         (\<lambda>l (d, n). \<exists>segs b. length segs = d \<and> set segs \<subseteq> {indentation True, indentation False} \<and>
            l = prefix @ concat segs @ connector b @ n)
         ls (nodes_at_depth 0 t))"
proof -
  obtain ls where ls: "generateTreeString t prefix isLast = terminated ls"
      "list_all2 (is_line prefix 0) ls (nodes_at_depth 0 t)"
    using render_lines(1) [OF assms(2) assms(1), of isLast 0] by blast
  have noLF: "\<forall>l\<in>set ls. LF \<notin> set l"
    using ls(2) by (auto simp: list_all2_conv_all_nth in_set_conv_nth is_line_def)
  have "length ls = count_nodes t"
    using ls(2) by (simp add: list_all2_lengthD length_nodes_at_depth)
  then have count: "line_count (generateTreeString t prefix isLast) = count_nodes t"
    using noLF ls(1) by (simp add: line_count_terminated)
  have "list_all2
         (\<lambda>l (d, n). \<exists>segs b. length segs = d \<and> set segs \<subseteq> {indentation True, indentation False} \<and>
            l = prefix @ concat segs @ connector b @ n)
         ls (nodes_at_depth 0 t)"
    using ls(2) by (rule list_all2_mono) (rule is_line_top)
  moreover have "split_nl (generateTreeString t prefix isLast) = ls @ [[]]"
    using noLF ls(1) by (simp add: split_nl_terminated)
  ultimately show ?thesis using count by blast
qed

theorem generateTreeString_one_line_per_node_witness:
  "names_without_LF example_tree \<and> LF \<notin> set [] \<and>
   line_count (generateTreeString example_tree [] True) = 4 \<and>
   split_nl (generateTreeString example_tree [] True) =
     [connector True @ ''repo'',
      indentation True @ connector False @ ''src'',
      indentation True @ indentation False @ connector True @ ''index.ts'',
      indentation True @ connector True @ ''README.md'',
      []]"
proof -
  have h: "names_without_LF example_tree"
    by (simp add: example_tree_def LF_def)
  have "line_count (generateTreeString example_tree [] True) = count_nodes example_tree"
    using generateTreeString_one_line_per_node [OF h, of "[]" True] by simp
  then have "line_count (generateTreeString example_tree [] True) = 4"
    by (simp add: example_tree_def)
  moreover have "split_nl (generateTreeString example_tree [] True) =
     [connector True @ ''repo'',
      indentation True @ connector False @ ''src'',
      indentation True @ indentation False @ connector True @ ''index.ts'',
      indentation True @ connector True @ ''README.md'',
      []]"
    by (simp add: example_tree_def connector_def indentation_def LF_def glyph_corner_def
        glyph_dash_def glyph_tee_def glyph_bar_def)
  ultimately show ?thesis using h by simp
qed

text \<open>
  Claim C6 as stated, for every tree, fails: a single file whose name holds a line feed
  is one node and renders as two lines.
\<close>

theorem generateTreeString_line_count_counterexample:
  "line_count (generateTreeString (FileTree two_line_name TFile None) [] True)
     \<noteq> count_nodes (FileTree two_line_name TFile None)"
  by (simp add: line_count_def two_line_name_def LF_def connector_def glyph_corner_def glyph_dash_def)

subsection \<open>The tree block\<close>

lemma buildFileTree_unfiltered_root:
  "buildFileTree_unfiltered lc ed repoName root = Inr t \<Longrightarrow> \<exists>cs. t = FileTree repoName TDirectory (Some cs)"
  by (cases root) (auto split: if_splits sum.splits)

lemma buildFileTree_filtered_root:
  "buildFileTree_filtered lw lc ed repoName inc root = Inr t \<Longrightarrow> \<exists>cs. t = FileTree repoName TDirectory (Some cs)"
  by (cases root) (auto split: if_splits sum.splits)




text \<open>
  Where the first child's name holds a line feed, the two pieces dropped are the root's
  line and the first half of the child's line, and the second half stays in the block.
\<close>

lemma treeString_two_line_name:
  "buildFileTree_unfiltered compare_bytes [] ''repo'' two_line_listing
     = Inr (FileTree ''repo'' TDirectory (Some [FileTree two_line_name TFile None])) \<and>
   generateTreeString (FileTree ''repo'' TDirectory (Some [FileTree two_line_name TFile None])) [] True
     = (connector True @ ''repo'' @ [LF]) @ (indentation True @ connector True @ two_line_name @ [LF]) @ [] \<and>
   treeString ''repo'' (FileTree ''repo'' TDirectory (Some [FileTree two_line_name TFile None]))
     \<noteq> ''repo/'' @ [LF] @ []"
  by (simp add: two_line_listing_def two_line_name_def sortedItems_def sort_with_def treeString_def
      slice_def LF_def connector_def indentation_def glyph_corner_def glyph_dash_def)

subsection \<open>The sort and the children of a directory\<close>

lemma set_insert_sorted [simp]: "set (insert_sorted compare x ys) = insert x (set ys)"
  by (induction ys) auto

lemma set_sort_with [simp]: "set (sort_with compare xs) = set xs"
  by (induction xs) (auto simp: sort_with_def)

lemma set_sortedItems [simp]: "set (sortedItems lc items) = set items"
  by (simp add: sortedItems_def)

lemma sorted_insert_sorted:
  assumes total: "\<And>a b. compare a b \<le> 0 \<or> compare b a \<le> 0"
    and trans: "\<And>a b c. compare a b \<le> 0 \<Longrightarrow> compare b c \<le> 0 \<Longrightarrow> compare a c \<le> 0"
  shows "sorted_wrt (\<lambda>a b. compare a b \<le> 0) ys \<Longrightarrow>
         sorted_wrt (\<lambda>a b. compare a b \<le> 0) (insert_sorted compare x ys)"
proof (induction ys)
  case Nil
  show ?case by simp
next
  case (Cons y ys)
  show ?case
  proof (cases "compare x y \<le> 0")
    case True
    then have "\<forall>z\<in>set ys. compare x z \<le> 0"
      using Cons.prems trans by auto
    with True Cons.prems show ?thesis by simp
  next
    case False
    then have "compare y x \<le> 0" using total [of x y] by simp
    with False Cons show ?thesis by auto
  qed
qed

lemma sorted_sort_with:
  assumes "\<And>a b. compare a b \<le> 0 \<or> compare b a \<le> 0"
    and "\<And>a b c. compare a b \<le> 0 \<Longrightarrow> compare b c \<le> 0 \<Longrightarrow> compare a c \<le> 0"
  shows "sorted_wrt (\<lambda>a b. compare a b \<le> 0) (sort_with compare xs)"
proof (induction xs)
  case Nil
  show ?case by (simp add: sort_with_def)
next
  case (Cons x xs)
  have "sort_with compare (x # xs) = insert_sorted compare x (sort_with compare xs)"
    by (simp add: sort_with_def)
  with Cons show ?case
    using sorted_insert_sorted [of compare, OF assms] by simp
qed

lemma compareItems_le:
  "compareItems lc a b \<le> 0 \<longleftrightarrow>
     (isDirectory (snd a) \<and> \<not> isDirectory (snd b)) \<or>
     (isDirectory (snd a) = isDirectory (snd b) \<and> lc (fst a) (fst b) \<le> 0)"
  by (auto simp: compareItems_def Let_def)

lemma sorted_sortedItems:
  assumes total: "\<forall>a b. lc a b \<le> 0 \<or> lc b a \<le> 0"
    and trans: "\<forall>a b c. lc a b \<le> 0 \<longrightarrow> lc b c \<le> 0 \<longrightarrow> lc a c \<le> 0"
  shows "sorted_wrt (\<lambda>a b. compareItems lc a b \<le> 0) (sortedItems lc items)"
  unfolding sortedItems_def
proof (rule sorted_sort_with)
  fix a b :: "string \<times> fsnode"
  show "compareItems lc a b \<le> 0 \<or> compareItems lc b a \<le> 0"
    using total by (auto simp: compareItems_le)
next
  fix a b c :: "string \<times> fsnode"
  assume "compareItems lc a b \<le> 0" "compareItems lc b c \<le> 0"
  then show "compareItems lc a c \<le> 0"
    unfolding compareItems_le using trans by blast
qed

lemma forItems_unfiltered_eq:
  "forItems_unfiltered lc ed items cs = Inr cs' \<Longrightarrow>
   cs' = cs @ concat (map (subtree_unfiltered lc ed) items)"
proof (induction items arbitrary: cs)
  case Nil
  then show ?case by simp
next
  case (Cons i items)
  obtain item node where i: "i = (item, node)" by (cases i)
  show ?case
    using Cons.prems unfolding i
    by (auto simp: subtree_unfiltered_def split: if_splits sum.splits dest!: Cons.IH)
qed

lemma forItems_filtered_eq:
  "forItems_filtered lw lc ed inc items cs = Inr cs' \<Longrightarrow>
   cs' = cs @ concat (map (subtree_filtered lw lc ed inc) items)"
proof (induction items arbitrary: cs)
  case Nil
  then show ?case by simp
next
  case (Cons i items)
  obtain item node where i: "i = (item, node)" by (cases i)
  show ?case
    using Cons.prems unfolding i
    by (auto simp: subtree_filtered_def Let_def split: if_splits sum.splits dest!: Cons.IH)
qed

lemma buildFileTree_unfiltered_children:
  "buildFileTree_unfiltered lc ed nm (Dir items) = Inr t \<Longrightarrow>
   t = FileTree nm TDirectory (Some (concat (map (subtree_unfiltered lc ed) (sortedItems lc items))))"
  by (auto split: if_splits sum.splits dest: forItems_unfiltered_eq)

lemma buildFileTree_filtered_children:
  "buildFileTree_filtered lw lc ed nm inc (Dir items) = Inr t \<Longrightarrow>
   t = FileTree nm TDirectory (Some (concat (map (subtree_filtered lw lc ed inc) (sortedItems lc items))))"
  by (auto split: if_splits sum.splits dest: forItems_filtered_eq)

lemma subtree_unfiltered_node:
  "c \<in> set (subtree_unfiltered lc ed i) \<Longrightarrow>
   name c = fst i \<and> (type c = TDirectory \<longleftrightarrow> isDirectory (snd i)) \<and> (type c = TFile \<longleftrightarrow> \<not> isDirectory (snd i))"
proof (cases "isDirectory (snd i)")
  case True
  assume "c \<in> set (subtree_unfiltered lc ed i)"
  with True have "buildFileTree_unfiltered lc ed (fst i) (snd i) = Inr c"
    by (cases "fst i \<in> set ed"; cases "buildFileTree_unfiltered lc ed (fst i) (snd i)")
       (simp_all add: subtree_unfiltered_def split: if_splits)
  then obtain cs where "c = FileTree (fst i) TDirectory (Some cs)"
    using buildFileTree_unfiltered_root by blast
  with True show ?thesis by simp
next
  case False
  assume "c \<in> set (subtree_unfiltered lc ed i)"
  with False have "c = FileTree (fst i) TFile None"
    by (auto simp: subtree_unfiltered_def split: if_splits)
  with False show ?thesis by simp
qed

lemma subtree_filtered_node:
  "c \<in> set (subtree_filtered lw lc ed inc i) \<Longrightarrow>
   name c = fst i \<and> (type c = TDirectory \<longleftrightarrow> isDirectory (snd i)) \<and> (type c = TFile \<longleftrightarrow> \<not> isDirectory (snd i))"
proof (cases "isDirectory (snd i)")
  case True
  assume "c \<in> set (subtree_filtered lw lc ed inc i)"
  with True have "buildFileTree_filtered lw lc ed (fst i) inc (snd i) = Inr c"
    by (cases "fst i \<in> set ed"; cases "buildFileTree_filtered lw lc ed (fst i) inc (snd i)")
       (simp_all add: subtree_filtered_def split: if_splits)
  then obtain cs where "c = FileTree (fst i) TDirectory (Some cs)"
    using buildFileTree_filtered_root by blast
  with True show ?thesis by simp
next
  case False
  assume "c \<in> set (subtree_filtered lw lc ed inc i)"
  with False have "c = FileTree (fst i) TFile None"
    by (auto simp: subtree_filtered_def split: if_splits)
  with False show ?thesis by simp
qed

lemma subtree_unfiltered_short: "length (subtree_unfiltered lc ed i) \<le> 1"
  by (simp add: subtree_unfiltered_def split: sum.splits)

lemma subtree_filtered_short: "length (subtree_filtered lw lc ed inc i) \<le> 1"
  by (simp add: subtree_filtered_def split: sum.splits)

lemma sorted_wrt_short: "length xs \<le> 1 \<Longrightarrow> sorted_wrt P xs"
  by (cases xs) auto

lemma sorted_wrt_concat_map:
  assumes "sorted_wrt Q xs"
    and "\<And>x. x \<in> set xs \<Longrightarrow> sorted_wrt P (g x)"
    and "\<And>x y a b. Q x y \<Longrightarrow> a \<in> set (g x) \<Longrightarrow> b \<in> set (g y) \<Longrightarrow> P a b"
  shows "sorted_wrt P (concat (map g xs))"
  using assms(1,2)
proof (induction xs)
  case Nil
  show ?case by simp
next
  case (Cons x xs)
  then show ?case
    using assms(3) by (auto simp: sorted_wrt_append)
qed

lemma sibling_order_from_items:
  assumes "compareItems lc i j \<le> 0"
    and "name a = fst i \<and> (type a = TDirectory \<longleftrightarrow> isDirectory (snd i)) \<and> (type a = TFile \<longleftrightarrow> \<not> isDirectory (snd i))"
    and "name b = fst j \<and> (type b = TDirectory \<longleftrightarrow> isDirectory (snd j)) \<and> (type b = TFile \<longleftrightarrow> \<not> isDirectory (snd j))"
  shows "sibling_order lc a b"
  using assms unfolding compareItems_le sibling_order_def
  by (cases "type a"; cases "type b") auto

lemma listing_order_sortedItems:
  assumes "\<forall>a b. lc a b \<le> 0 \<or> lc b a \<le> 0"
    and "\<forall>a b c. lc a b \<le> 0 \<longrightarrow> lc b c \<le> 0 \<longrightarrow> lc a c \<le> 0"
  shows "sorted_wrt (listing_order lc) (sortedItems lc items)"
proof -
  have "listing_order lc = (\<lambda>a b. compareItems lc a b \<le> 0)"
    by (intro ext) (simp add: listing_order_def compareItems_le)
  then show ?thesis using sorted_sortedItems [OF assms] by simp
qed

lemma forItems_unfiltered_descends:
  "forItems_unfiltered lc ed items cs = Inr cs' \<Longrightarrow> (item, node) \<in> set items \<Longrightarrow>
   isDirectory node \<Longrightarrow> item \<notin> set ed \<Longrightarrow>
   \<exists>c. buildFileTree_unfiltered lc ed item node = Inr c"
proof (induction items arbitrary: cs)
  case Nil
  then show ?case by simp
next
  case (Cons i items)
  obtain item' node' where i: "i = (item', node')" by (cases i)
  show ?case
  proof (cases "i = (item, node)")
    case True
    with Cons.prems i show ?thesis
      by (cases "buildFileTree_unfiltered lc ed item node") (auto split: if_splits)
  next
    case False
    with Cons.prems have mem: "(item, node) \<in> set items" by simp
    from Cons.prems(1) obtain cs1 where "forItems_unfiltered lc ed items cs1 = Inr cs'"
      unfolding i by (auto split: if_splits sum.splits)
    from Cons.IH [OF this mem Cons.prems(3,4)] show ?thesis .
  qed
qed

lemma count_list_insert_sorted:
  "count_list (insert_sorted compare x ys) y = count_list (x # ys) y"
  by (induction ys) auto

lemma count_list_sortedItems: "count_list (sortedItems lc items) x = count_list items x"
  unfolding sortedItems_def sort_with_def
  by (induction items) (auto simp: count_list_insert_sorted)

lemma subtree_filtered_kept:
  "map (\<lambda>c. (name c, type c)) (subtree_filtered lw lc ed inc i) =
     (if kept_filtered lw lc ed inc i then [entry_node i] else [])"
proof (cases "isDirectory (snd i)")
  case True
  show ?thesis
  proof (cases "fst i \<in> set ed")
    case True
    with \<open>isDirectory (snd i)\<close> show ?thesis by (simp add: subtree_filtered_def kept_filtered_def)
  next
    case False
    show ?thesis
    proof (cases "buildFileTree_filtered lw lc ed (fst i) inc (snd i)")
      case (Inl e)
      with True False show ?thesis by (simp add: subtree_filtered_def kept_filtered_def)
    next
      case (Inr c)
      then obtain cs where "c = FileTree (fst i) TDirectory (Some cs)"
        using buildFileTree_filtered_root by blast
      with Inr True False show ?thesis
        by (simp add: subtree_filtered_def kept_filtered_def entry_node_def)
    qed
  qed
next
  case False
  then show ?thesis by (simp add: subtree_filtered_def kept_filtered_def entry_node_def)
qed

lemma subtree_unfiltered_kept:
  assumes "isDirectory (snd i) \<Longrightarrow> fst i \<notin> set ed \<Longrightarrow> \<exists>c. buildFileTree_unfiltered lc ed (fst i) (snd i) = Inr c"
  shows "map (\<lambda>c. (name c, type c)) (subtree_unfiltered lc ed i) =
     (if kept_unfiltered ed i then [entry_node i] else [])"
proof (cases "isDirectory (snd i)")
  case True
  show ?thesis
  proof (cases "fst i \<in> set ed")
    case True
    with \<open>isDirectory (snd i)\<close> show ?thesis by (simp add: subtree_unfiltered_def kept_unfiltered_def)
  next
    case False
    with True assms obtain c where c: "buildFileTree_unfiltered lc ed (fst i) (snd i) = Inr c" by blast
    then obtain cs where "c = FileTree (fst i) TDirectory (Some cs)"
      using buildFileTree_unfiltered_root by blast
    with c True False show ?thesis
      by (simp add: subtree_unfiltered_def kept_unfiltered_def entry_node_def)
  qed
next
  case False
  then show ?thesis by (simp add: subtree_unfiltered_def kept_unfiltered_def entry_node_def)
qed

lemma map_concat_kept:
  assumes "\<And>x. x \<in> set xs \<Longrightarrow> map f (g x) = (if keep x then [h x] else [])"
  shows "map f (concat (map g xs)) = map h (filter keep xs)"
  using assms by (induction xs) auto

text \<open>
  Claim C7. For a collation that is a total preorder, the sort puts the listing in an
  order with directories before files and each of the two groups ascending, leaving
  out and adding nothing; and the children of the tree built from the listing, by
  either variant, are by name and kind the entries that the variant keeps, in the
  order of the sort. So they are in sibling order: directories before files, and
  each of the two groups ascending in the collation.
\<close>

theorem buildFileTree_directories_first_sorted:
  assumes "\<forall>a b. localeCompare a b \<le> 0 \<or> localeCompare b a \<le> 0"
    and "\<forall>a b c. localeCompare a b \<le> 0 \<longrightarrow> localeCompare b c \<le> 0 \<longrightarrow> localeCompare a c \<le> 0"
  shows "sorted_wrt (listing_order localeCompare) (sortedItems localeCompare items) \<and>
    (\<forall>i. count_list (sortedItems localeCompare items) i = count_list items i) \<and>
    (buildFileTree_unfiltered localeCompare excludeDirs repoName (Dir items) = Inr t \<longrightarrow>
       (\<exists>cs. children t = Some cs \<and> sorted_wrt (sibling_order localeCompare) cs \<and>
          map (\<lambda>c. (name c, type c)) cs =
            map entry_node (filter (kept_unfiltered excludeDirs) (sortedItems localeCompare items)))) \<and>
    (buildFileTree_filtered toLowerCase localeCompare excludeDirs repoName includeExtensions (Dir items) = Inr t' \<longrightarrow>
       (\<exists>cs. children t' = Some cs \<and> sorted_wrt (sibling_order localeCompare) cs \<and>
          map (\<lambda>c. (name c, type c)) cs =
            map entry_node
              (filter (kept_filtered toLowerCase localeCompare excludeDirs includeExtensions)
                 (sortedItems localeCompare items))))"
proof (intro conjI impI allI)
  show "sorted_wrt (listing_order localeCompare) (sortedItems localeCompare items)"
    using assms by (rule listing_order_sortedItems)
next
  fix i show "count_list (sortedItems localeCompare items) i = count_list items i"
    by (rule count_list_sortedItems)
next
  let ?Q = "\<lambda>a b. compareItems localeCompare a b \<le> 0"
  let ?sub = "subtree_unfiltered localeCompare excludeDirs"
  have sorted: "sorted_wrt ?Q (sortedItems localeCompare items)"
    using assms(1,2) by (rule sorted_sortedItems)
  assume b: "buildFileTree_unfiltered localeCompare excludeDirs repoName (Dir items) = Inr t"
  then have "t = FileTree repoName TDirectory (Some (concat (map ?sub (sortedItems localeCompare items))))"
    by (rule buildFileTree_unfiltered_children)
  then have t: "children t = Some (concat (map ?sub (sortedItems localeCompare items)))"
    by simp
  have order: "sorted_wrt (sibling_order localeCompare) (concat (map ?sub (sortedItems localeCompare items)))"
    using sorted
  proof (rule sorted_wrt_concat_map)
    fix x show "sorted_wrt (sibling_order localeCompare) (?sub x)"
      by (rule sorted_wrt_short) (rule subtree_unfiltered_short)
  next
    fix x y a b
    assume "?Q x y" "a \<in> set (?sub x)" "b \<in> set (?sub y)"
    then show "sibling_order localeCompare a b"
      by (intro sibling_order_from_items [of localeCompare x y] subtree_unfiltered_node)
  qed
  from b obtain cs' where loop: "forItems_unfiltered localeCompare excludeDirs (sortedItems localeCompare items) []
      = Inr cs'"
    by (auto split: if_splits sum.splits)
  have "map (\<lambda>c. (name c, type c)) (concat (map ?sub (sortedItems localeCompare items))) =
      map entry_node (filter (kept_unfiltered excludeDirs) (sortedItems localeCompare items))"
  proof (rule map_concat_kept)
    fix x assume x: "x \<in> set (sortedItems localeCompare items)"
    show "map (\<lambda>c. (name c, type c)) (?sub x) = (if kept_unfiltered excludeDirs x then [entry_node x] else [])"
    proof (rule subtree_unfiltered_kept)
      assume "isDirectory (snd x)" "fst x \<notin> set excludeDirs"
      with forItems_unfiltered_descends [OF loop, of "fst x" "snd x"] x
      show "\<exists>c. buildFileTree_unfiltered localeCompare excludeDirs (fst x) (snd x) = Inr c"
        by simp
    qed
  qed
  with t order show "\<exists>cs. children t = Some cs \<and> sorted_wrt (sibling_order localeCompare) cs \<and>
      map (\<lambda>c. (name c, type c)) cs =
        map entry_node (filter (kept_unfiltered excludeDirs) (sortedItems localeCompare items))"
    by blast
next
  let ?Q = "\<lambda>a b. compareItems localeCompare a b \<le> 0"
  let ?sub = "subtree_filtered toLowerCase localeCompare excludeDirs includeExtensions"
  have sorted: "sorted_wrt ?Q (sortedItems localeCompare items)"
    using assms(1,2) by (rule sorted_sortedItems)
  assume "buildFileTree_filtered toLowerCase localeCompare excludeDirs repoName includeExtensions (Dir items) = Inr t'"
  then have "t' = FileTree repoName TDirectory (Some (concat (map ?sub (sortedItems localeCompare items))))"
    by (rule buildFileTree_filtered_children)
  then have t: "children t' = Some (concat (map ?sub (sortedItems localeCompare items)))"
    by simp
  have order: "sorted_wrt (sibling_order localeCompare) (concat (map ?sub (sortedItems localeCompare items)))"
    using sorted
  proof (rule sorted_wrt_concat_map)
    fix x show "sorted_wrt (sibling_order localeCompare) (?sub x)"
      by (rule sorted_wrt_short) (rule subtree_filtered_short)
  next
    fix x y a b
    assume "?Q x y" "a \<in> set (?sub x)" "b \<in> set (?sub y)"
    then show "sibling_order localeCompare a b"
      by (intro sibling_order_from_items [of localeCompare x y] subtree_filtered_node)
  qed
  have "map (\<lambda>c. (name c, type c)) (concat (map ?sub (sortedItems localeCompare items))) =
      map entry_node (filter (kept_filtered toLowerCase localeCompare excludeDirs includeExtensions)
        (sortedItems localeCompare items))"
    by (rule map_concat_kept) (rule subtree_filtered_kept)
  with t order show "\<exists>cs. children t' = Some cs \<and> sorted_wrt (sibling_order localeCompare) cs \<and>
      map (\<lambda>c. (name c, type c)) cs =
        map entry_node (filter (kept_filtered toLowerCase localeCompare excludeDirs includeExtensions)
          (sortedItems localeCompare items))"
    by blast
qed

lemma compare_bytes_total: "compare_bytes a b \<le> 0 \<or> compare_bytes b a \<le> 0"
  by (induction a b rule: compare_bytes.induct) auto

lemma compare_bytes_trans:
  "compare_bytes a b \<le> 0 \<Longrightarrow> compare_bytes b c \<le> 0 \<Longrightarrow> compare_bytes a c \<le> 0"
proof (induction a arbitrary: b c)
  case Nil
  then show ?case by (cases c) auto
next
  case (Cons x xs)
  then obtain y ys where b: "b = y # ys" by (cases b) auto
  with Cons.prems obtain z zs where c: "c = z # zs" by (cases c) auto
  show ?case
    using Cons.prems Cons.IH [of ys zs] unfolding b c
    by (auto split: if_splits)
qed

text \<open>
  The example of the specification: \<^verbatim>\<open>b.txt\<close>, the directory \<^verbatim>\<open>A\<close> and \<^verbatim>\<open>a.txt\<close> come
  out as \<^verbatim>\<open>A\<close>, \<^verbatim>\<open>a.txt\<close>, \<^verbatim>\<open>b.txt\<close>, from both variants. And a listing as
  \<^verbatim>\<open>fs.readdirSync\<close> returns it, \<^verbatim>\<open>a.txt\<close> and then the directory \<^verbatim>\<open>z\<close>, comes out as
  \<^verbatim>\<open>z\<close>, \<^verbatim>\<open>a.txt\<close>.
\<close>

theorem buildFileTree_directories_first_sorted_witness:
  "buildFileTree_unfiltered compare_bytes default_excludeDirs ''repo'' siblings_listing = Inr siblings_tree \<and>
   buildFileTree_filtered lower_ascii compare_bytes default_excludeDirs ''repo'' (Some [''.txt''])
     siblings_listing = Inr siblings_tree \<and>
   sorted_wrt (sibling_order compare_bytes)
     [FileTree ''A'' TDirectory (Some [FileTree ''c.txt'' TFile None]),
      FileTree ''a.txt'' TFile None,
      FileTree ''b.txt'' TFile None] \<and>
   map (\<lambda>c. (name c, type c)) (the (children siblings_tree))
     = [(''A'', TDirectory), (''a.txt'', TFile), (''b.txt'', TFile)] \<and>
   buildFileTree_filtered lower_ascii compare_bytes default_excludeDirs ''repo'' None (Dir unsorted_listing)
     = Inr (FileTree ''repo'' TDirectory
              (Some [FileTree ''z'' TDirectory (Some [FileTree ''c.txt'' TFile None]),
                     FileTree ''a.txt'' TFile None]))"
proof -
  let ?items = "[(''b.txt'', File (Some ''b'')),
                 (''A'', Dir [(''c.txt'', File (Some ''c''))]),
                 (''a.txt'', File (Some ''a''))]"
  have total: "\<forall>a b. compare_bytes a b \<le> 0 \<or> compare_bytes b a \<le> 0"
    using compare_bytes_total by blast
  have trans: "\<forall>a b c. compare_bytes a b \<le> 0 \<longrightarrow> compare_bytes b c \<le> 0 \<longrightarrow> compare_bytes a c \<le> 0"
    using compare_bytes_trans by blast
  have s: "sortedItems compare_bytes ?items =
      [(''A'', Dir [(''c.txt'', File (Some ''c''))]), (''a.txt'', File (Some ''a'')), (''b.txt'', File (Some ''b''))]"
    "sortedItems compare_bytes [(''c.txt'', File (Some ''c''))] = [(''c.txt'', File (Some ''c''))]"
    by (simp_all add: sortedItems_def sort_with_def compareItems_def)
  have e: "lower_ascii (extname ''a.txt'') = ''.txt''" "lower_ascii (extname ''b.txt'') = ''.txt''"
    "lower_ascii (extname ''c.txt'') = ''.txt''" "lower_ascii ''.txt'' = ''.txt''"
    by (simp_all add: extname_def lower_ascii_def)
  have u: "buildFileTree_unfiltered compare_bytes default_excludeDirs ''repo'' (Dir ?items) = Inr siblings_tree"
    by (simp add: s default_excludeDirs_def siblings_tree_def)
  have f: "buildFileTree_filtered lower_ascii compare_bytes default_excludeDirs ''repo'' (Some [''.txt''])
      (Dir ?items) = Inr siblings_tree"
    by (simp add: s e default_excludeDirs_def siblings_tree_def extensionIncluded_def)
  note claim = buildFileTree_directories_first_sorted [OF total trans, where items = ?items
      and excludeDirs = default_excludeDirs and repoName = "''repo''" and toLowerCase = lower_ascii
      and includeExtensions = "Some [''.txt'']" and t = siblings_tree and t' = siblings_tree]
  from claim u have "\<exists>cs. children siblings_tree = Some cs \<and> sorted_wrt (sibling_order compare_bytes) cs"
    by blast
  then have o: "sorted_wrt (sibling_order compare_bytes)
     [FileTree ''A'' TDirectory (Some [FileTree ''c.txt'' TFile None]),
      FileTree ''a.txt'' TFile None,
      FileTree ''b.txt'' TFile None]"
    by (simp add: siblings_tree_def)
  from claim f have "\<exists>cs. children siblings_tree = Some cs \<and>
      map (\<lambda>c. (name c, type c)) cs =
        map entry_node (filter (kept_filtered lower_ascii compare_bytes default_excludeDirs (Some [''.txt'']))
          (sortedItems compare_bytes ?items))"
    by blast
  then have k: "map (\<lambda>c. (name c, type c)) (the (children siblings_tree))
     = [(''A'', TDirectory), (''a.txt'', TFile), (''b.txt'', TFile)]"
    by (auto simp: s e kept_filtered_def entry_node_def default_excludeDirs_def extensionIncluded_def)
  have r: "buildFileTree_filtered lower_ascii compare_bytes default_excludeDirs ''repo'' None
      (Dir unsorted_listing)
     = Inr (FileTree ''repo'' TDirectory
              (Some [FileTree ''z'' TDirectory (Some [FileTree ''c.txt'' TFile None]),
                     FileTree ''a.txt'' TFile None]))"
    by (simp add: unsorted_listing_def sortedItems_def sort_with_def compareItems_def
        default_excludeDirs_def extensionIncluded_def)
  from u f o k r show ?thesis
    by (simp add: siblings_listing_def)
qed

subsection \<open>Files in the unfiltered tree\<close>

lemma subtree_unfiltered_file:
  "\<not> isDirectory (snd i) \<Longrightarrow> subtree_unfiltered lc ed i = [FileTree (fst i) TFile None]"
  by (simp add: subtree_unfiltered_def)

lemma buildFileTree_unfiltered_has_file:
  "buildFileTree_unfiltered lc ed nm root = Inr t \<Longrightarrow> fs_has_file root (ds @ [f]) \<Longrightarrow>
   set ds \<inter> set ed = {} \<Longrightarrow> tree_has_file t (ds @ [f])"
proof (induction ds arbitrary: root t nm)
  case Nil
  from Nil.prems(2) obtain items where root: "root = Dir items"
    by (cases root) auto
  with Nil.prems(2) obtain i where i: "i \<in> set items" "fst i = f" "fs_has_file (snd i) []"
    by (auto simp: list_ex_iff)
  then obtain c where "snd i = File c"
    by (cases "snd i") auto
  with i(2) have "i = (f, File c)"
    by (simp add: prod_eq_iff)
  with i(1) have f: "(f, File c) \<in> set items"
    by simp
  from Nil.prems(1) have t: "t = FileTree nm TDirectory
      (Some (concat (map (subtree_unfiltered lc ed) (sortedItems lc items))))"
    unfolding root by (rule buildFileTree_unfiltered_children)
  have "FileTree f TFile None \<in> set (subtree_unfiltered lc ed (f, File c))"
    by (simp add: subtree_unfiltered_file)
  with f have "FileTree f TFile None \<in> set (concat (map (subtree_unfiltered lc ed) (sortedItems lc items)))"
    by (auto intro!: bexI [of _ "(f, File c)"])
  then show ?case
    unfolding t by (auto simp: list_ex_iff intro!: bexI [of _ "FileTree f TFile None"])
next
  case (Cons d ds)
  from Cons.prems(2) obtain items child where root: "root = Dir items"
      and d: "(d, child) \<in> set items" and below: "fs_has_file child (ds @ [f])"
    by (cases root) (auto simp: list_ex_iff)
  from below have dir: "isDirectory child"
    by (cases child; cases ds) auto
  from Cons.prems(3) have dn: "d \<notin> set ed" and rest: "set ds \<inter> set ed = {}" by auto
  from Cons.prems(1) have t: "t = FileTree nm TDirectory
      (Some (concat (map (subtree_unfiltered lc ed) (sortedItems lc items))))"
    unfolding root by (rule buildFileTree_unfiltered_children)
  from Cons.prems(1) obtain cs where "forItems_unfiltered lc ed (sortedItems lc items) [] = Inr cs"
    unfolding root by (auto split: if_splits sum.splits)
  moreover have "(d, child) \<in> set (sortedItems lc items)" using d by simp
  ultimately obtain c where c: "buildFileTree_unfiltered lc ed d child = Inr c"
    using forItems_unfiltered_descends dir dn by blast
  then have cin: "c \<in> set (subtree_unfiltered lc ed (d, child))"
    using dir dn by (simp add: subtree_unfiltered_def)
  have nm: "name c = d"
    using buildFileTree_unfiltered_root [OF c] by auto
  have "tree_has_file c (ds @ [f])"
    using Cons.IH [OF c below rest] .
  moreover have "c \<in> set (concat (map (subtree_unfiltered lc ed) (sortedItems lc items)))"
    using cin d by (auto intro!: bexI [of _ "(d, child)"])
  ultimately show ?case
    unfolding t using nm by (auto simp: list_ex_iff)
qed

lemma forEach_children_member:
  "c \<in> set cs \<Longrightarrow> \<exists>front l rear. forEach_children cs p = front @ generateTreeString c p l @ rear"
proof (induction cs)
  case Nil
  then show ?case by simp
next
  case (Cons a cs)
  show ?case
  proof (cases "c = a")
    case True
    have "forEach_children (a # cs) p = [] @ generateTreeString c p (cs = []) @ forEach_children cs p"
      using True by simp
    then show ?thesis by blast
  next
    case False
    with Cons obtain front l rear where "forEach_children cs p = front @ generateTreeString c p l @ rear"
      by auto
    then have "forEach_children (a # cs) p =
        (generateTreeString a p (cs = []) @ front) @ generateTreeString c p l @ rear"
      by simp
    then show ?thesis by blast
  qed
qed

lemma tree_has_file_rendered:
  "tree_has_file t p \<Longrightarrow>
   \<exists>front b rear. generateTreeString t prefix isLast = front @ connector b @ last (name t # p) @ [LF] @ rear"
proof (induction p arbitrary: t prefix isLast)
  case Nil
  obtain n ty cs where t: "t = FileTree n ty cs" by (cases t)
  with Nil have "generateTreeString t prefix isLast = prefix @ connector isLast @ last (name t # []) @ [LF] @ []"
    by simp
  then show ?case by blast
next
  case (Cons n ns)
  obtain m ty cso where t: "t = FileTree m ty cso" by (cases t)
  with Cons.prems obtain cs c where cs: "cso = Some cs" and c: "c \<in> set cs" "name c = n"
      "tree_has_file c ns"
    by (auto simp: list_ex_iff split: option.splits)
  obtain front l rear where r: "forEach_children cs (prefix @ indentation isLast) =
      front @ generateTreeString c (prefix @ indentation isLast) l @ rear"
    using forEach_children_member [OF c(1)] by blast
  obtain front' b rear' where r': "generateTreeString c (prefix @ indentation isLast) l =
      front' @ connector b @ last (name c # ns) @ [LF] @ rear'"
    using Cons.IH [OF c(3)] by blast
  have "generateTreeString t prefix isLast =
      (prefix @ connector isLast @ m @ [LF] @ front @ front') @ connector b
        @ last (name t # n # ns) @ [LF] @ (rear' @ rear)"
    unfolding t using cs r r' c(2) by simp
  then show ?case by blast
qed

text \<open>
  Claim C9. In the unfiltered variant, a file reached through directories none of
  which is excluded is a leaf of the tree under the same path, whatever its name: the
  tree builder has no list of excluded files. Its line is in the rendering. The test of
  the content merger refuses the same file when its name is excluded.
\<close>

theorem buildFileTree_unfiltered_keeps_every_file:
  assumes "buildFileTree_unfiltered localeCompare excludeDirs repoName root = Inr t"
    and "fs_has_file root (ds @ [f])"
    and "set ds \<inter> set excludeDirs = {}"
  shows "tree_has_file t (ds @ [f]) \<and>
    (\<exists>front b back. generateTreeString t [] True = front @ connector b @ f @ [LF] @ back) \<and>
    (f \<in> set excludeFiles \<longrightarrow> \<not> accepts_unfiltered toLowerCase excludeFiles f)"
proof -
  have leaf: "tree_has_file t (ds @ [f])"
    using assms by (rule buildFileTree_unfiltered_has_file)
  from tree_has_file_rendered [OF leaf, of "[]" True]
  have "\<exists>front b back. generateTreeString t [] True = front @ connector b @ f @ [LF] @ back"
    by simp
  with leaf show ?thesis by (simp add: accepts_unfiltered_def)
qed

theorem buildFileTree_unfiltered_keeps_every_file_witness:
  "buildFileTree_unfiltered compare_bytes default_excludeDirs ''repo'' env_listing =
     Inr (FileTree ''repo'' TDirectory
       (Some [FileTree ''src'' TDirectory (Some [FileTree ''.gitignore'' TFile None]),
              FileTree ''.env'' TFile None])) \<and>
   fs_has_file env_listing ([''src''] @ [''.gitignore'']) \<and>
   set [''src''] \<inter> set default_excludeDirs = {} \<and>
   ''.gitignore'' \<in> set default_excludeFiles \<and>
   tree_has_file
     (FileTree ''repo'' TDirectory
       (Some [FileTree ''src'' TDirectory (Some [FileTree ''.gitignore'' TFile None]),
              FileTree ''.env'' TFile None]))
     ([''src''] @ [''.gitignore'']) \<and>
   \<not> accepts_unfiltered lower_ascii default_excludeFiles ''.gitignore''"
proof -
  let ?t = "FileTree ''repo'' TDirectory
       (Some [FileTree ''src'' TDirectory (Some [FileTree ''.gitignore'' TFile None]),
              FileTree ''.env'' TFile None])"
  have b: "buildFileTree_unfiltered compare_bytes default_excludeDirs ''repo'' env_listing = Inr ?t"
    by (simp add: env_listing_def default_excludeDirs_def sortedItems_def sort_with_def compareItems_def)
  have h: "fs_has_file env_listing ([''src''] @ [''.gitignore''])"
    by (simp add: env_listing_def)
  have e: "set [''src''] \<inter> set default_excludeDirs = {}"
    by (simp add: default_excludeDirs_def)
  have x: "''.gitignore'' \<in> set default_excludeFiles"
    by (simp add: default_excludeFiles_def)
  from buildFileTree_unfiltered_keeps_every_file [OF b h e, of default_excludeFiles] x
  have "tree_has_file ?t ([''src''] @ [''.gitignore'']) \<and>
        \<not> accepts_unfiltered lower_ascii default_excludeFiles ''.gitignore''"
    by blast
  with b h e x show ?thesis by blast
qed

subsection \<open>Pruning in the filtered tree\<close>

lemma pruned_list_iff:
  "pruned_list cs \<longleftrightarrow>
     (\<forall>c\<in>set cs. (type c = TDirectory \<longrightarrow> children c \<noteq> None \<and> children c \<noteq> Some []) \<and> pruned c)"
  by (induction cs) auto

lemma subtree_filtered_directory:
  assumes "c \<in> set (subtree_filtered lw lc ed inc i)" and "isDirectory (snd i)"
  shows "buildFileTree_filtered lw lc ed (fst i) inc (snd i) = Inr c \<and>
         children c \<noteq> None \<and> children c \<noteq> Some []"
proof (cases "buildFileTree_filtered lw lc ed (fst i) inc (snd i)")
  case (Inl e)
  with assms show ?thesis
    by (cases "fst i \<in> set ed") (simp_all add: subtree_filtered_def)
next
  case (Inr c')
  with assms have "c' = c \<and> children c' \<noteq> None \<and> length (the (children c')) > 0"
    by (cases "fst i \<in> set ed"; cases "children c' \<noteq> None \<and> length (the (children c')) > 0")
       (simp_all add: subtree_filtered_def)
  with Inr show ?thesis by auto
qed

lemma subtree_filtered_leaf:
  assumes "c \<in> set (subtree_filtered lw lc ed inc i)" and "\<not> isDirectory (snd i)"
  shows "c = FileTree (fst i) TFile None"
  using assms by (simp add: subtree_filtered_def split: if_splits)

lemma buildFileTree_filtered_pruned:
  "buildFileTree_filtered lw lc ed nm inc root = Inr t \<Longrightarrow> pruned t"
proof (induction root arbitrary: nm t)
  case (Dir items)
  from Dir.prems have t: "t = FileTree nm TDirectory
      (Some (concat (map (subtree_filtered lw lc ed inc) (sortedItems lc items))))"
    by (rule buildFileTree_filtered_children)
  have "pruned_list (concat (map (subtree_filtered lw lc ed inc) (sortedItems lc items)))"
    unfolding pruned_list_iff
  proof
    fix c
    assume "c \<in> set (concat (map (subtree_filtered lw lc ed inc) (sortedItems lc items)))"
    then obtain i where i: "i \<in> set items" and c: "c \<in> set (subtree_filtered lw lc ed inc i)"
      by auto
    show "(type c = TDirectory \<longrightarrow> children c \<noteq> None \<and> children c \<noteq> Some []) \<and> pruned c"
    proof (cases "isDirectory (snd i)")
      case True
      from subtree_filtered_directory [OF c True]
      have b: "buildFileTree_filtered lw lc ed (fst i) inc (snd i) = Inr c"
        and ne: "children c \<noteq> None \<and> children c \<noteq> Some []" by auto
      have "snd i \<in> Basic_BNFs.snds i"
        by (cases i) simp
      with i have "pruned c" using b by (rule Dir.IH)
      with ne show ?thesis by simp
    next
      case False
      from subtree_filtered_leaf [OF c False] show ?thesis by simp
    qed
  qed
  then show ?case unfolding t by simp
qed simp_all

lemma passed_over_contributes_nothing:
  "passed_over lw ed inc i \<Longrightarrow> subtree_filtered lw lc ed inc i = []"
  by (auto simp: passed_over_def subtree_filtered_def)

text \<open>
  Claim C5. In the tree built by the filtered variant every directory node below the
  root has a non-empty sequence of children. Consequently a subdirectory all of whose
  entries are passed over (excluded directories, files outside the allow-list) has no
  node among the children of its parent.
\<close>

theorem buildFileTree_filtered_prunes_empty_directories:
  assumes "buildFileTree_filtered toLowerCase localeCompare excludeDirs repoName includeExtensions (Dir items) = Inr t"
  shows "pruned t \<and>
    (distinct (map fst items) \<and> (d, Dir sub) \<in> set items \<and>
     list_all (passed_over toLowerCase excludeDirs includeExtensions) sub \<longrightarrow>
       (\<exists>cs. children t = Some cs \<and> \<not> list_ex (\<lambda>c. name c = d) cs))"
proof (intro conjI impI)
  show "pruned t" using assms by (rule buildFileTree_filtered_pruned)
next
  assume a: "distinct (map fst items) \<and> (d, Dir sub) \<in> set items \<and>
     list_all (passed_over toLowerCase excludeDirs includeExtensions) sub"
  let ?sub = "subtree_filtered toLowerCase localeCompare excludeDirs includeExtensions"
  from assms have t: "t = FileTree repoName TDirectory
      (Some (concat (map ?sub (sortedItems localeCompare items))))"
    by (rule buildFileTree_filtered_children)
  have "name c \<noteq> d" if c: "c \<in> set (concat (map ?sub (sortedItems localeCompare items)))" for c
  proof
    assume nm: "name c = d"
    from c obtain i where i: "i \<in> set items" and ci: "c \<in> set (?sub i)"
      by auto
    from subtree_filtered_node [OF ci] nm have fst: "fst i = d" by simp
    have "(d, snd i) \<in> set items" using i fst by (simp add: prod_eq_iff flip: fst)
    with a have "snd i = Dir sub"
      using eq_key_imp_eq_value [of items d "snd i" "Dir sub"] by simp
    with fst have "i = (d, Dir sub)"
      by (simp add: prod_eq_iff)
    with ci subtree_filtered_directory [of c toLowerCase localeCompare excludeDirs includeExtensions i]
    have b: "buildFileTree_filtered toLowerCase localeCompare excludeDirs d includeExtensions (Dir sub) = Inr c"
      and ne: "children c \<noteq> Some []" by auto
    from b have "c = FileTree d TDirectory (Some (concat (map ?sub (sortedItems localeCompare sub))))"
      by (rule buildFileTree_filtered_children)
    moreover have "concat (map ?sub (sortedItems localeCompare sub)) = []"
      using a by (auto simp: list_all_iff passed_over_contributes_nothing)
    ultimately show False using ne by simp
  qed
  then show "\<exists>cs. children t = Some cs \<and> \<not> list_ex (\<lambda>c. name c = d) cs"
    unfolding t by (auto simp: list_ex_iff)
qed

theorem buildFileTree_filtered_prunes_empty_directories_witness:
  "buildFileTree_filtered lower_ascii compare_bytes default_excludeDirs ''repo'' (Some [''.md''])
     (Dir [(''README.md'', File (Some ''# repo'')),
           (''logs'', Dir [(''app.log'', File (Some ''started''))])])
     = Inr (FileTree ''repo'' TDirectory (Some [FileTree ''README.md'' TFile None])) \<and>
   distinct (map fst [(''README.md'', File (Some ''# repo'')),
                      (''logs'', Dir [(''app.log'', File (Some ''started''))])]) \<and>
   list_all (passed_over lower_ascii default_excludeDirs (Some [''.md''])) [(''app.log'', File (Some ''started''))] \<and>
   \<not> list_ex (\<lambda>c. name c = ''logs'') [FileTree ''README.md'' TFile None]"
proof -
  let ?items = "[(''README.md'', File (Some ''# repo'')),
                 (''logs'', Dir [(''app.log'', File (Some ''started''))])]"
  let ?t = "FileTree ''repo'' TDirectory (Some [FileTree ''README.md'' TFile None])"
  have low: "lower_ascii ''.log'' = ''.log''" "lower_ascii ''.md'' = ''.md''"
    by (simp_all add: lower_ascii_def)
  have ext: "extname ''app.log'' = ''.log''" "extname ''README.md'' = ''.md''"
    by (simp_all add: extname_def)
  have b: "buildFileTree_filtered lower_ascii compare_bytes default_excludeDirs ''repo'' (Some [''.md'']) (Dir ?items)
      = Inr ?t"
    by (simp add: default_excludeDirs_def sortedItems_def sort_with_def compareItems_def
        extensionIncluded_def low ext)
  have d: "distinct (map fst ?items)" by simp
  have p: "list_all (passed_over lower_ascii default_excludeDirs (Some [''.md''])) [(''app.log'', File (Some ''started''))]"
    by (simp add: passed_over_def extensionIncluded_def low ext)
  have m: "(''logs'', Dir [(''app.log'', File (Some ''started''))]) \<in> set ?items" by simp
  from buildFileTree_filtered_prunes_empty_directories [OF b, of "''logs''" "[(''app.log'', File (Some ''started''))]"]
    d p m
  have "\<not> list_ex (\<lambda>c. name c = ''logs'') [FileTree ''README.md'' TFile None]"
    by simp
  with b d p show ?thesis by blast
qed

subsection \<open>The walk of the content merger\<close>

lemma prepend_simps [simp]:
  "prepend mc (Inl e) = Inl e" "prepend mc (Inr s) = Inr (mc @ s)"
  "prepend mc (prepend mc' r) = prepend (mc @ mc') r"
  by (simp_all add: prepend_def split: sum.splits)

lemma forItems_process_buffer:
  assumes "\<And>i dir mc. i \<in> set items \<Longrightarrow>
      processDirectory a td rn ed dir (snd i) mc = prepend mc (processDirectory a td rn ed dir (snd i) [])"
  shows "forItems_process a td rn ed dir items mc = prepend mc (forItems_process a td rn ed dir items [])"
  using assms
proof (induction items arbitrary: mc)
  case Nil
  show ?case by simp
next
  case (Cons i items)
  obtain item node where i: "i = (item, node)" by (cases i)
  have rest: "forItems_process a td rn ed dir items mc' =
      prepend mc' (forItems_process a td rn ed dir items [])" for mc'
  proof (rule Cons.IH)
    fix j :: "string \<times> fsnode" and dir' mc''
    assume "j \<in> set items"
    then have "j \<in> set (i # items)" by simp
    then show "processDirectory a td rn ed dir' (snd j) mc'' =
        prepend mc'' (processDirectory a td rn ed dir' (snd j) [])"
      by (rule Cons.prems)
  qed
  have node: "processDirectory a td rn ed dir' node mc' =
      prepend mc' (processDirectory a td rn ed dir' node [])" for dir' mc'
    using Cons.prems [of i dir' mc'] unfolding i by (simp only: list.set_intros snd_conv)
  show ?case
  proof (cases "statFails node")
    case True
    then show ?thesis by (simp add: i)
  next
    case False
    note ns = this
    show ?thesis
    proof (cases "isDirectory node")
      case True
      show ?thesis
      proof (cases "item \<in> set ed")
        case True
        with ns \<open>isDirectory node\<close> show ?thesis using rest [of mc] by (simp add: i)
      next
        case False
        show ?thesis
        proof (cases "processDirectory a td rn ed (path_join dir item) node []")
          case (Inl e)
          with ns \<open>isDirectory node\<close> False show ?thesis
            using node [of "path_join dir item" mc] by (simp add: i)
        next
          case (Inr s)
          with ns \<open>isDirectory node\<close> False show ?thesis
            using node [of "path_join dir item" mc] rest [of "mc @ s"] rest [of s]
            by (simp add: i)
        qed
      qed
    next
      case False
      show ?thesis
      proof (cases "a item")
        case True
        show ?thesis
        proof (cases "readFileSync node")
          case (Inr content)
          with ns \<open>\<not> isDirectory node\<close> \<open>a item\<close> show ?thesis
            using rest [of "mc @ fileHeader td rn (path_join dir item) @ content @ [LF]"]
              rest [of "fileHeader td rn (path_join dir item) @ content @ [LF]"]
            by (simp add: i)
        next
          case (Inl e)
          with ns \<open>\<not> isDirectory node\<close> \<open>a item\<close> show ?thesis
            by (simp add: i)
        qed
      next
        case False
        with ns \<open>\<not> isDirectory node\<close> show ?thesis using rest [of mc] by (simp add: i)
      qed
    qed
  qed
qed

lemma processDirectory_buffer:
  "processDirectory a td rn ed dir node mc = prepend mc (processDirectory a td rn ed dir node [])"
proof (induction node arbitrary: dir mc)
  case (Dir items)
  have "forItems_process a td rn ed dir items mc = prepend mc (forItems_process a td rn ed dir items [])"
  proof (rule forItems_process_buffer)
    fix i :: "string \<times> fsnode" and dir' mc'
    assume "i \<in> set items"
    moreover have "snd i \<in> Basic_BNFs.snds i" by (cases i) simp
    ultimately show "processDirectory a td rn ed dir' (snd i) mc' =
        prepend mc' (processDirectory a td rn ed dir' (snd i) [])"
      by (rule Dir.IH)
  qed
  then show ?case by simp
qed simp_all

lemma forItems_process_eq:
  "forItems_process a td rn ed dir items mc = Inr out \<Longrightarrow>
   out = mc @ concat (map (merged_of_item a td rn ed dir) items)"
proof (induction items arbitrary: mc out)
  case Nil
  then show ?case by simp
next
  case (Cons i items)
  obtain item node where i: "i = (item, node)" by (cases i)
  from Cons.prems have ns: "\<not> statFails node"
    by (auto simp: i split: if_splits)
  show ?case
  proof (cases "isDirectory node")
    case True
    show ?thesis
    proof (cases "item \<in> set ed")
      case True
      with ns \<open>isDirectory node\<close> Cons.prems
      have "forItems_process a td rn ed dir items mc = Inr out" by (simp add: i)
      from Cons.IH [OF this] True \<open>isDirectory node\<close> show ?thesis
        by (simp add: i merged_of_item_def)
    next
      case False
      from Cons.prems ns \<open>isDirectory node\<close> False obtain mc' where
        p: "processDirectory a td rn ed (path_join dir item) node mc = Inr mc'"
        and r: "forItems_process a td rn ed dir items mc' = Inr out"
        by (cases "processDirectory a td rn ed (path_join dir item) node mc") (auto simp: i)
      from p obtain s where s: "processDirectory a td rn ed (path_join dir item) node [] = Inr s"
        and mc': "mc' = mc @ s"
        by (subst (asm) processDirectory_buffer)
           (cases "processDirectory a td rn ed (path_join dir item) node []", auto)
      from Cons.IH [OF r] s mc' False \<open>isDirectory node\<close> show ?thesis
        by (simp add: i merged_of_item_def)
    qed
  next
    case False
    show ?thesis
    proof (cases "a item")
      case True
      with Cons.prems ns False obtain content where c: "readFileSync node = Inr content"
        by (cases "readFileSync node") (auto simp: i)
      with Cons.prems ns False True
      have "forItems_process a td rn ed dir items
          (mc @ fileHeader td rn (path_join dir item) @ content @ [LF]) = Inr out"
        by (simp add: i)
      from Cons.IH [OF this] c True False show ?thesis
        by (simp add: i merged_of_item_def)
    next
      case False
      with Cons.prems ns \<open>\<not> isDirectory node\<close>
      have "forItems_process a td rn ed dir items mc = Inr out" by (simp add: i)
      from Cons.IH [OF this] False \<open>\<not> isDirectory node\<close> show ?thesis
        by (simp add: i merged_of_item_def)
    qed
  qed
qed

lemma length_insert_sorted [simp]: "length (insert_sorted compare x ys) = Suc (length ys)"
  by (induction ys) auto

lemma length_sortedItems [simp]: "length (sortedItems lc items) = length items"
  unfolding sortedItems_def sort_with_def by (induction items) auto

lemma walked_none: "walked vs vs route False" "walked vs vs [] completed"
  unfolding walked_def by simp_all

lemma walked_step:
  "walked vs' (vs @ [p]) route c \<Longrightarrow> walked vs' vs (p # route) c"
  unfolding walked_def by auto

lemma walked_failed:
  "walked vs' vs route False \<Longrightarrow> walked vs' vs (route @ further) False"
  unfolding walked_def by auto

lemma walked_then:
  "walked vs1 vs route1 True \<Longrightarrow> walked vs2 vs1 route2 c \<Longrightarrow> walked vs2 vs (route1 @ route2) c"
  unfolding walked_def by auto

lemma unfiltered_visiting_result:
  "fst (buildFileTree_unfiltered_visiting lc dir ed nm node vs) = buildFileTree_unfiltered lc ed nm node"
  "fst (forItems_unfiltered_visiting lc dir ed items cs vs) = forItems_unfiltered lc ed items cs"
proof (induction lc dir ed nm node vs and lc dir ed items cs vs
      rule: buildFileTree_unfiltered_visiting_forItems_unfiltered_visiting.induct)
  case (1 lc dir ed nm items vs)
  show ?case
  proof (cases "list_ex (\<lambda>i. statFails (snd i)) items")
    case False
    from 1 [OF False] False show ?thesis
      by (cases "forItems_unfiltered_visiting lc dir ed (sortedItems lc items) [] vs")
         (auto split: sum.splits)
  qed simp
next
  case (6 lc dir ed item node rest cs vs)
  show ?case
  proof (cases "statFails node")
    case False
    note ns = this
    show ?thesis
    proof (cases "isDirectory node")
      case True
      show ?thesis
      proof (cases "item \<in> set ed")
        case True
        with 6(3) [OF refl ns \<open>isDirectory node\<close>] ns \<open>isDirectory node\<close> show ?thesis by simp
      next
        case False
        obtain r vs' where r: "buildFileTree_unfiltered_visiting lc (path_join dir item) ed item node
            (vs @ [path_join dir item]) = (r, vs')"
          by (cases "buildFileTree_unfiltered_visiting lc (path_join dir item) ed item node
            (vs @ [path_join dir item])")
        from 6(1) [OF refl ns True False] r have b: "buildFileTree_unfiltered lc ed item node = r" by simp
        show ?thesis
        proof (cases r)
          case (Inl e)
          with r b ns True False show ?thesis by simp
        next
          case (Inr childTree)
          from 6(2) [OF refl ns True False r [symmetric] Inr] r b Inr ns True False
          show ?thesis by simp
        qed
      qed
    next
      case False
      with 6(4) [OF refl ns False] ns show ?thesis by simp
    qed
  qed simp
qed simp_all

lemma unfiltered_visiting_route:
  "walked (snd (buildFileTree_unfiltered_visiting lc dir ed nm node vs)) vs (depth_first_sorted lc dir ed node)
     (isl (fst (buildFileTree_unfiltered_visiting lc dir ed nm node vs)) = False)"
  "walked (snd (forItems_unfiltered_visiting lc dir ed items cs vs)) vs (depth_first_sorted_items lc dir ed items)
     (isl (fst (forItems_unfiltered_visiting lc dir ed items cs vs)) = False)"
proof (induction lc dir ed nm node vs and lc dir ed items cs vs
      rule: buildFileTree_unfiltered_visiting_forItems_unfiltered_visiting.induct)
  case (1 lc dir ed nm items vs)
  show ?case
  proof (cases "list_ex (\<lambda>i. statFails (snd i)) items")
    case True
    then show ?thesis by (simp add: walked_none)
  next
    case False
    from 1 [OF False] False show ?thesis
      by (cases "forItems_unfiltered_visiting lc dir ed (sortedItems lc items) [] vs")
         (auto split: sum.splits)
  qed
next
  case (6 lc dir ed item node rest cs vs)
  let ?fp = "path_join dir item"
  show ?case
  proof (cases "statFails node")
    case True
    then show ?thesis by (simp add: walked_none)
  next
    case False
    note ns = this
    show ?thesis
    proof (cases "isDirectory node")
      case True
      show ?thesis
      proof (cases "item \<in> set ed")
        case True
        from 6(3) [OF refl ns \<open>isDirectory node\<close>] True
        have "walked (snd (forItems_unfiltered_visiting lc dir ed rest cs (vs @ [?fp]))) vs
            (?fp # depth_first_sorted_items lc dir ed rest)
            (isl (fst (forItems_unfiltered_visiting lc dir ed rest cs (vs @ [?fp]))) = False)"
          by (intro walked_step) simp
        with True ns \<open>isDirectory node\<close> show ?thesis by simp
      next
        case False
        obtain r vs' where r: "buildFileTree_unfiltered_visiting lc ?fp ed item node (vs @ [?fp]) = (r, vs')"
          by (cases "buildFileTree_unfiltered_visiting lc ?fp ed item node (vs @ [?fp])")
        from 6(1) [OF refl ns True False] r
        have w1: "walked vs' (vs @ [?fp]) (depth_first_sorted lc ?fp ed node) (isl r = False)" by simp
        show ?thesis
        proof (cases r)
          case (Inl e)
          with w1 have "walked vs' vs (?fp # depth_first_sorted lc ?fp ed node) False"
            by (intro walked_step) simp
          then have "walked vs' vs ((?fp # depth_first_sorted lc ?fp ed node) @ depth_first_sorted_items lc dir ed rest) False"
            by (rule walked_failed)
          with Inl r ns True False show ?thesis by simp
        next
          case (Inr childTree)
          with w1 have "walked vs' vs (?fp # depth_first_sorted lc ?fp ed node) True"
            by (intro walked_step) simp
          moreover from 6(2) [OF refl ns True False r [symmetric] Inr]
          have "walked (snd (forItems_unfiltered_visiting lc dir ed rest (cs @ [childTree]) vs')) vs'
              (depth_first_sorted_items lc dir ed rest)
              (isl (fst (forItems_unfiltered_visiting lc dir ed rest (cs @ [childTree]) vs')) = False)" .
          ultimately have "walked (snd (forItems_unfiltered_visiting lc dir ed rest (cs @ [childTree]) vs')) vs
              ((?fp # depth_first_sorted lc ?fp ed node) @ depth_first_sorted_items lc dir ed rest)
              (isl (fst (forItems_unfiltered_visiting lc dir ed rest (cs @ [childTree]) vs')) = False)"
            by (rule walked_then)
          with Inr r ns True False show ?thesis by simp
        qed
      qed
    next
      case False
      from 6(4) [OF refl ns False]
      have "walked (snd (forItems_unfiltered_visiting lc dir ed rest (cs @ [FileTree item TFile None]) (vs @ [?fp]))) vs
          (?fp # depth_first_sorted_items lc dir ed rest)
          (isl (fst (forItems_unfiltered_visiting lc dir ed rest (cs @ [FileTree item TFile None]) (vs @ [?fp]))) = False)"
        by (intro walked_step) simp
      with False ns show ?thesis by simp
    qed
  qed
qed (simp_all add: walked_none)


lemma filtered_visiting_result:
  "fst (buildFileTree_filtered_visiting lw lc dir ed nm inc node vs) = buildFileTree_filtered lw lc ed nm inc node"
  "fst (forItems_filtered_visiting lw lc dir ed inc items cs vs) = forItems_filtered lw lc ed inc items cs"
proof (induction lw lc dir ed nm inc node vs and lw lc dir ed inc items cs vs
      rule: buildFileTree_filtered_visiting_forItems_filtered_visiting.induct)
  case (1 lw lc dir ed nm inc items vs)
  show ?case
  proof (cases "list_ex (\<lambda>i. statFails (snd i)) items")
    case False
    from 1 [OF False] False show ?thesis
      by (cases "forItems_filtered_visiting lw lc dir ed inc (sortedItems lc items) [] vs")
         (auto split: sum.splits)
  qed simp
next
  case (6 lw lc dir ed inc item node rest cs vs)
  let ?fp = "path_join dir item"
  show ?case
  proof (cases "statFails node")
    case False
    note ns = this
    show ?thesis
    proof (cases "isDirectory node")
      case True
      show ?thesis
      proof (cases "item \<in> set ed")
        case True
        with 6(4) [OF refl ns \<open>isDirectory node\<close>] ns \<open>isDirectory node\<close> show ?thesis by (auto simp: Let_def)
      next
        case False
        obtain r vs' where r: "buildFileTree_filtered_visiting lw lc ?fp ed item inc node (vs @ [?fp]) = (r, vs')"
          by (cases "buildFileTree_filtered_visiting lw lc ?fp ed item inc node (vs @ [?fp])")
        from 6(1) [OF refl ns True False] r have b: "buildFileTree_filtered lw lc ed item inc node = r" by simp
        show ?thesis
        proof (cases r)
          case (Inl e)
          with r b ns True False show ?thesis by (auto simp: Let_def)
        next
          case (Inr childTree)
          show ?thesis
          proof (cases "children childTree \<noteq> None \<and> 0 < length (the (children childTree))")
            case par: True
            from 6(2) [OF refl ns True False r [symmetric] Inr par] r b Inr ns True False par
            show ?thesis by (auto simp: Let_def)
          next
            case par: False
            from 6(3) [OF refl ns True False r [symmetric] Inr par] r b Inr ns True False par
            show ?thesis by (auto simp: Let_def)
          qed
        qed
      qed
    next
      case False
      show ?thesis
      proof (cases "extensionIncluded lw inc (lw (extname item))")
        case True
        with 6(5) [OF refl ns False refl] ns False show ?thesis by (auto simp: Let_def)
      next
        case inc: False
        with 6(6) [OF refl ns False refl] ns False show ?thesis by (auto simp: Let_def)
      qed
    qed
  qed simp
qed simp_all

lemma filtered_visiting_route:
  "walked (snd (buildFileTree_filtered_visiting lw lc dir ed nm inc node vs)) vs (depth_first_sorted lc dir ed node)
     (isl (fst (buildFileTree_filtered_visiting lw lc dir ed nm inc node vs)) = False)"
  "walked (snd (forItems_filtered_visiting lw lc dir ed inc items cs vs)) vs
     (depth_first_sorted_items lc dir ed items)
     (isl (fst (forItems_filtered_visiting lw lc dir ed inc items cs vs)) = False)"
proof (induction lw lc dir ed nm inc node vs and lw lc dir ed inc items cs vs
      rule: buildFileTree_filtered_visiting_forItems_filtered_visiting.induct)
  case (1 lw lc dir ed nm inc items vs)
  show ?case
  proof (cases "list_ex (\<lambda>i. statFails (snd i)) items")
    case True
    then show ?thesis by (simp add: walked_none)
  next
    case False
    from 1 [OF False] False show ?thesis
      by (cases "forItems_filtered_visiting lw lc dir ed inc (sortedItems lc items) [] vs")
         (auto split: sum.splits)
  qed
next
  case (6 lw lc dir ed inc item node rest cs vs)
  let ?fp = "path_join dir item"
  let ?loop = "forItems_filtered_visiting lw lc dir ed inc rest"
  have step: "walked (snd (?loop cs' (vs @ [?fp]))) vs (?fp # depth_first_sorted_items lc dir ed rest)
      (isl (fst (?loop cs' (vs @ [?fp]))) = False)"
    if "walked (snd (?loop cs' (vs @ [?fp]))) (vs @ [?fp]) (depth_first_sorted_items lc dir ed rest)
      (isl (fst (?loop cs' (vs @ [?fp]))) = False)" for cs'
    using that by (rule walked_step)
  show ?case
  proof (cases "statFails node")
    case True
    then show ?thesis by (simp add: walked_none)
  next
    case False
    note ns = this
    show ?thesis
    proof (cases "isDirectory node")
      case True
      show ?thesis
      proof (cases "item \<in> set ed")
        case True
        from step [OF 6(4) [OF refl ns \<open>isDirectory node\<close>]] True ns \<open>isDirectory node\<close>
        show ?thesis by (auto simp: Let_def)
      next
        case False
        obtain r vs' where r: "buildFileTree_filtered_visiting lw lc ?fp ed item inc node (vs @ [?fp]) = (r, vs')"
          by (cases "buildFileTree_filtered_visiting lw lc ?fp ed item inc node (vs @ [?fp])")
        from 6(1) [OF refl ns True False] r
        have w1: "walked vs' (vs @ [?fp]) (depth_first_sorted lc ?fp ed node) (isl r = False)" by simp
        show ?thesis
        proof (cases r)
          case (Inl e)
          with w1 have "walked vs' vs (?fp # depth_first_sorted lc ?fp ed node) False"
            by (intro walked_step) simp
          then have "walked vs' vs
              ((?fp # depth_first_sorted lc ?fp ed node) @ depth_first_sorted_items lc dir ed rest) False"
            by (rule walked_failed)
          with Inl r ns True False show ?thesis by (auto simp: Let_def)
        next
          case (Inr childTree)
          with w1 have w2: "walked vs' vs (?fp # depth_first_sorted lc ?fp ed node) True"
            by (intro walked_step) simp
          have then_rest: "walked (snd (?loop cs' vs')) vs
              ((?fp # depth_first_sorted lc ?fp ed node) @ depth_first_sorted_items lc dir ed rest)
              (isl (fst (?loop cs' vs')) = False)"
            if "walked (snd (?loop cs' vs')) vs' (depth_first_sorted_items lc dir ed rest)
              (isl (fst (?loop cs' vs')) = False)" for cs'
            using w2 that by (rule walked_then)
          show ?thesis
          proof (cases "children childTree \<noteq> None \<and> 0 < length (the (children childTree))")
            case par: True
            from then_rest [OF 6(2) [OF refl ns True False r [symmetric] Inr par]] Inr r ns True False par
            show ?thesis by (auto simp: Let_def)
          next
            case par: False
            from then_rest [OF 6(3) [OF refl ns True False r [symmetric] Inr par]] Inr r ns True False par
            show ?thesis by (auto simp: Let_def)
          qed
        qed
      qed
    next
      case False
      show ?thesis
      proof (cases "extensionIncluded lw inc (lw (extname item))")
        case True
        from step [OF 6(5) [OF refl ns False refl True]] True False ns show ?thesis by (auto simp: Let_def)
      next
        case inc: False
        from step [OF 6(6) [OF refl ns False refl inc]] inc False ns show ?thesis by (auto simp: Let_def)
      qed
    qed
  qed
qed (simp_all add: walked_none)

lemma process_visiting_result:
  "fst (processDirectory_visiting a td rn ed dir node mc vs) = processDirectory a td rn ed dir node mc"
  "fst (forItems_process_visiting a td rn ed dir items mc vs) = forItems_process a td rn ed dir items mc"
proof (induction a td rn ed dir node mc vs and a td rn ed dir items mc vs
      rule: processDirectory_visiting_forItems_process_visiting.induct)
  case (6 a td rn ed dir item node rest mc vs)
  let ?fp = "path_join dir item"
  show ?case
  proof (cases "statFails node")
    case False
    note ns = this
    show ?thesis
    proof (cases "isDirectory node")
      case True
      show ?thesis
      proof (cases "item \<in> set ed")
        case True
        with 6(3) [OF refl ns \<open>isDirectory node\<close>] ns \<open>isDirectory node\<close> show ?thesis by (auto simp: Let_def)
      next
        case False
        obtain r vs' where r: "processDirectory_visiting a td rn ed ?fp node mc (vs @ [?fp]) = (r, vs')"
          by (cases "processDirectory_visiting a td rn ed ?fp node mc (vs @ [?fp])")
        from 6(1) [OF refl ns True False] r have b: "processDirectory a td rn ed ?fp node mc = r" by simp
        show ?thesis
        proof (cases r)
          case (Inl e)
          with r b ns True False show ?thesis by (auto simp: Let_def)
        next
          case (Inr mc')
          from 6(2) [OF refl ns True False r [symmetric] Inr] r b Inr ns True False
          show ?thesis by (auto simp: Let_def)
        qed
      qed
    next
      case False
      show ?thesis
      proof (cases "a item")
        case True
        show ?thesis
        proof (cases "readFileSync node")
          case (Inl e)
          with True False ns show ?thesis by (auto simp: Let_def)
        next
          case (Inr content)
          with 6(4) [OF refl ns False True Inr] True False ns show ?thesis by (auto simp: Let_def)
        qed
      next
        case na: False
        with 6(5) [OF refl ns False na] False ns show ?thesis by (auto simp: Let_def)
      qed
    qed
  qed simp
qed simp_all

lemma process_visiting_route:
  "walked (snd (processDirectory_visiting a td rn ed dir node mc vs)) vs (depth_first_listed dir ed node)
     (isl (fst (processDirectory_visiting a td rn ed dir node mc vs)) = False)"
  "walked (snd (forItems_process_visiting a td rn ed dir items mc vs)) vs (depth_first_listed_items dir ed items)
     (isl (fst (forItems_process_visiting a td rn ed dir items mc vs)) = False)"
proof (induction a td rn ed dir node mc vs and a td rn ed dir items mc vs
      rule: processDirectory_visiting_forItems_process_visiting.induct)
  case (6 a td rn ed dir item node rest mc vs)
  let ?fp = "path_join dir item"
  let ?loop = "forItems_process_visiting a td rn ed dir rest"
  have step: "walked (snd (?loop mc' (vs @ [?fp]))) vs (?fp # depth_first_listed_items dir ed rest)
      (isl (fst (?loop mc' (vs @ [?fp]))) = False)"
    if "walked (snd (?loop mc' (vs @ [?fp]))) (vs @ [?fp]) (depth_first_listed_items dir ed rest)
      (isl (fst (?loop mc' (vs @ [?fp]))) = False)" for mc'
    using that by (rule walked_step)
  show ?case
  proof (cases "statFails node")
    case True
    then show ?thesis by (simp add: walked_none)
  next
    case False
    note ns = this
    show ?thesis
    proof (cases "isDirectory node")
      case True
      show ?thesis
      proof (cases "item \<in> set ed")
        case True
        from step [OF 6(3) [OF refl ns \<open>isDirectory node\<close>]] True ns \<open>isDirectory node\<close>
        show ?thesis by (auto simp: Let_def)
      next
        case False
        obtain r vs' where r: "processDirectory_visiting a td rn ed ?fp node mc (vs @ [?fp]) = (r, vs')"
          by (cases "processDirectory_visiting a td rn ed ?fp node mc (vs @ [?fp])")
        from 6(1) [OF refl ns True False] r
        have w1: "walked vs' (vs @ [?fp]) (depth_first_listed ?fp ed node) (isl r = False)" by simp
        show ?thesis
        proof (cases r)
          case (Inl e)
          with w1 have "walked vs' vs (?fp # depth_first_listed ?fp ed node) False"
            by (intro walked_step) simp
          then have "walked vs' vs
              ((?fp # depth_first_listed ?fp ed node) @ depth_first_listed_items dir ed rest) False"
            by (rule walked_failed)
          with Inl r ns True False show ?thesis by (auto simp: Let_def)
        next
          case (Inr mc')
          with w1 have "walked vs' vs (?fp # depth_first_listed ?fp ed node) True"
            by (intro walked_step) simp
          moreover from 6(2) [OF refl ns True False r [symmetric] Inr]
          have "walked (snd (?loop mc' vs')) vs' (depth_first_listed_items dir ed rest)
              (isl (fst (?loop mc' vs')) = False)" .
          ultimately have "walked (snd (?loop mc' vs')) vs
              ((?fp # depth_first_listed ?fp ed node) @ depth_first_listed_items dir ed rest)
              (isl (fst (?loop mc' vs')) = False)"
            by (rule walked_then)
          with Inr r ns True False show ?thesis by (auto simp: Let_def)
        qed
      qed
    next
      case False
      show ?thesis
      proof (cases "a item")
        case True
        show ?thesis
        proof (cases "readFileSync node")
          case (Inl e)
          have "walked (vs @ [?fp]) vs ([?fp] @ depth_first_listed_items dir ed rest) False"
            unfolding walked_def by auto
          with Inl True False ns show ?thesis by (auto simp: Let_def)
        next
          case (Inr content)
          from step [OF 6(4) [OF refl ns False True Inr]] Inr True False ns show ?thesis by (auto simp: Let_def)
        qed
      next
        case na: False
        from step [OF 6(5) [OF refl ns False na]] na False ns show ?thesis by (auto simp: Let_def)
      qed
    qed
  qed
qed (simp_all add: walked_none)

text \<open>
  Claim C2, amended. Each of the three walks, with its visits on record, returns what
  the walk returns and goes along the depth-first route: an entry, then all that lies
  below it, and only then the next entry; a walk that fails has gone along the route
  up to the failure. The route of the tree builders takes the entries of every
  directory in the order of the sort (a rearrangement of the listing with directories
  before files and each group ascending, for a collation that is a total preorder);
  the route of the content merger takes them in the order of the listing. The results
  are built in the same way: the children of a built tree are, sibling after sibling,
  the whole subtrees, and what the content merger appends is, sibling after sibling,
  all that the walk of that sibling appends.
\<close>

theorem walks_depth_first_in_their_sibling_order:
  fixes toLowerCase :: "string \<Rightarrow> string" and localeCompare :: "string \<Rightarrow> string \<Rightarrow> int"
    and items :: "(string \<times> fsnode) list" and visited :: "string list"
    and directory repoName tempDir mergedContent :: string
    and excludeDirs :: "string list" and includeExtensions :: "string list option"
    and accepts :: "string \<Rightarrow> bool"
  assumes "\<forall>a b. localeCompare a b \<le> 0 \<or> localeCompare b a \<le> 0"
    and "\<forall>a b c. localeCompare a b \<le> 0 \<longrightarrow> localeCompare b c \<le> 0 \<longrightarrow> localeCompare a c \<le> 0"
  defines "build \<equiv>
      buildFileTree_unfiltered_visiting localeCompare directory excludeDirs repoName (Dir items) visited"
    and "build' \<equiv>
      buildFileTree_filtered_visiting toLowerCase localeCompare directory excludeDirs repoName
        includeExtensions (Dir items) visited"
    and "merge \<equiv>
      processDirectory_visiting accepts tempDir repoName excludeDirs directory (Dir items) mergedContent visited"
  shows "sorted_wrt (listing_order localeCompare) (sortedItems localeCompare items) \<and>
    set (sortedItems localeCompare items) = set items \<and>
    length (sortedItems localeCompare items) = length items \<and>
    fst build = buildFileTree_unfiltered localeCompare excludeDirs repoName (Dir items) \<and>
    walked (snd build) visited (depth_first_sorted localeCompare directory excludeDirs (Dir items))
      (\<not> isl (fst build)) \<and>
    fst build' = buildFileTree_filtered toLowerCase localeCompare excludeDirs repoName includeExtensions (Dir items) \<and>
    walked (snd build') visited (depth_first_sorted localeCompare directory excludeDirs (Dir items))
      (\<not> isl (fst build')) \<and>
    fst merge = processDirectory accepts tempDir repoName excludeDirs directory (Dir items) mergedContent \<and>
    walked (snd merge) visited (depth_first_listed directory excludeDirs (Dir items)) (\<not> isl (fst merge)) \<and>
    (fst build = Inr t \<longrightarrow>
       children t =
         Some (concat (map (subtree_unfiltered localeCompare excludeDirs) (sortedItems localeCompare items)))) \<and>
    (fst build' = Inr t' \<longrightarrow>
       children t' =
         Some (concat (map (subtree_filtered toLowerCase localeCompare excludeDirs includeExtensions)
                 (sortedItems localeCompare items)))) \<and>
    (fst merge = Inr out \<longrightarrow>
       out = mergedContent @ concat (map (merged_of_item accepts tempDir repoName excludeDirs directory) items))"
proof (intro conjI impI)
  show "sorted_wrt (listing_order localeCompare) (sortedItems localeCompare items)"
    using assms(1,2) by (rule listing_order_sortedItems)
next
  show "walked (snd build) visited (depth_first_sorted localeCompare directory excludeDirs (Dir items))
      (\<not> isl (fst build))"
    using unfiltered_visiting_route(1)
      [of localeCompare directory excludeDirs repoName "Dir items" visited]
    by (simp add: build_def)
next
  show "walked (snd build') visited (depth_first_sorted localeCompare directory excludeDirs (Dir items))
      (\<not> isl (fst build'))"
    using filtered_visiting_route(1)
      [of toLowerCase localeCompare directory excludeDirs repoName includeExtensions "Dir items" visited]
    by (simp add: build'_def)
next
  show "walked (snd merge) visited (depth_first_listed directory excludeDirs (Dir items)) (\<not> isl (fst merge))"
    using process_visiting_route(1)
      [of accepts tempDir repoName excludeDirs directory "Dir items" mergedContent visited]
    by (simp add: merge_def)
next
  assume "fst build = Inr t"
  then have "buildFileTree_unfiltered localeCompare excludeDirs repoName (Dir items) = Inr t"
    by (simp only: build_def unfiltered_visiting_result)
  from buildFileTree_unfiltered_children [OF this]
  show "children t =
      Some (concat (map (subtree_unfiltered localeCompare excludeDirs) (sortedItems localeCompare items)))"
    by simp
next
  assume "fst build' = Inr t'"
  then have "buildFileTree_filtered toLowerCase localeCompare excludeDirs repoName includeExtensions (Dir items)
      = Inr t'"
    by (simp only: build'_def filtered_visiting_result)
  from buildFileTree_filtered_children [OF this]
  show "children t' =
      Some (concat (map (subtree_filtered toLowerCase localeCompare excludeDirs includeExtensions)
              (sortedItems localeCompare items)))"
    by simp
next
  assume "fst merge = Inr out"
  then have "forItems_process accepts tempDir repoName excludeDirs directory items mergedContent = Inr out"
    by (simp only: merge_def process_visiting_result processDirectory.simps)
  then show "out = mergedContent @ concat (map (merged_of_item accepts tempDir repoName excludeDirs directory) items)"
    by (rule forItems_process_eq)
qed (simp_all only: build_def build'_def merge_def unfiltered_visiting_result filtered_visiting_result
    process_visiting_result set_sortedItems length_sortedItems)

lemma sortedItems_unsorted_listing:
  "sortedItems compare_bytes unsorted_listing =
     [(''z'', Dir [(''c.txt'', File (Some ''c''))]),
      (''a.txt'', File (Some ''a''))]"
  by (simp add: unsorted_listing_def sortedItems_def sort_with_def compareItems_def)

lemma fileHeader_below_tempDir:
  "fileHeader ''temp-1'' ''repo'' (''temp-1/'' @ rest) = [LF] @ ''// File: repo/'' @ rest @ [LF]"
  by (simp add: fileHeader_def replace_def)

lemma accepts_txt:
  "accepts_unfiltered lower_ascii default_excludeFiles ''a.txt''"
  "accepts_unfiltered lower_ascii default_excludeFiles ''c.txt''"
  by (simp_all add: accepts_unfiltered_def default_excludeFiles_def isTextFile_def extname_def
      lower_ascii_def textExtensions_def)

lemma utf8_decode_ascii:
  "\<forall>c\<in>set s. (of_char c :: nat) \<le> 0x7F \<Longrightarrow> utf8_decode 0 [] 0x80 0xBF s = s"
  by (induction s) (simp_all add: utf8_decode.simps)

lemma utf8_text_samples [simp]:
  "utf8_text ''a'' = ''a''"
  "utf8_text ''c'' = ''c''"
  "utf8_text ''# repo'' = ''# repo''"
  "utf8_text ''export {}'' = ''export {}''"
  by (simp_all add: utf8_text_def utf8_decode_ascii)

theorem walks_depth_first_in_their_sibling_order_witness:
  "sorted_wrt (listing_order compare_bytes) (sortedItems compare_bytes unsorted_listing) \<and>
   map fst (sortedItems compare_bytes unsorted_listing) = [''z'', ''a.txt''] \<and>
   buildFileTree_unfiltered_visiting compare_bytes ''temp-1'' default_excludeDirs ''repo''
       (Dir unsorted_listing) []
     = (Inr (FileTree ''repo'' TDirectory
               (Some [FileTree ''z'' TDirectory (Some [FileTree ''c.txt'' TFile None]),
                      FileTree ''a.txt'' TFile None])),
        [''temp-1/z'', ''temp-1/z/c.txt'', ''temp-1/a.txt'']) \<and>
   snd (buildFileTree_filtered_visiting lower_ascii compare_bytes ''temp-1'' default_excludeDirs ''repo''
          (Some [''.md'']) (Dir unsorted_listing) [])
     = [''temp-1/z'', ''temp-1/z/c.txt'', ''temp-1/a.txt''] \<and>
   processDirectory_visiting (accepts_unfiltered lower_ascii default_excludeFiles) ''temp-1'' ''repo''
       default_excludeDirs ''temp-1'' (Dir unsorted_listing) ''/* tree */'' []
     = (Inr (''/* tree */''
          @ [LF] @ ''// File: repo/a.txt'' @ [LF] @ ''a'' @ [LF]
          @ [LF] @ ''// File: repo/z/c.txt'' @ [LF] @ ''c'' @ [LF]),
        [''temp-1/a.txt'', ''temp-1/z'', ''temp-1/z/c.txt''])"
proof -
  have total: "\<forall>a b. compare_bytes a b \<le> 0 \<or> compare_bytes b a \<le> 0"
    using compare_bytes_total by blast
  have trans: "\<forall>a b c. compare_bytes a b \<le> 0 \<longrightarrow> compare_bytes b c \<le> 0 \<longrightarrow> compare_bytes a c \<le> 0"
    using compare_bytes_trans by blast
  let ?build = "buildFileTree_unfiltered_visiting compare_bytes ''temp-1'' default_excludeDirs ''repo''
      (Dir unsorted_listing) []"
  let ?build' = "buildFileTree_filtered_visiting lower_ascii compare_bytes ''temp-1'' default_excludeDirs
      ''repo'' (Some [''.md'']) (Dir unsorted_listing) []"
  let ?merge = "processDirectory_visiting (accepts_unfiltered lower_ascii default_excludeFiles) ''temp-1''
      ''repo'' default_excludeDirs ''temp-1'' (Dir unsorted_listing) ''/* tree */'' []"
  let ?tree = "FileTree ''repo'' TDirectory
      (Some [FileTree ''z'' TDirectory (Some [FileTree ''c.txt'' TFile None]),
             FileTree ''a.txt'' TFile None])"
  let ?out = "''/* tree */''
          @ [LF] @ ''// File: repo/a.txt'' @ [LF] @ ''a'' @ [LF]
          @ [LF] @ ''// File: repo/z/c.txt'' @ [LF] @ ''c'' @ [LF]"
  note claim = walks_depth_first_in_their_sibling_order [OF total trans, where items = unsorted_listing
      and directory = "''temp-1''" and tempDir = "''temp-1''" and repoName = "''repo''"
      and excludeDirs = default_excludeDirs and visited = "[]" and toLowerCase = lower_ascii
      and includeExtensions = "Some [''.md'']" and mergedContent = "''/* tree */''"
      and accepts = "accepts_unfiltered lower_ascii default_excludeFiles"]
  have s: "sortedItems compare_bytes [(''c.txt'', File (Some ''c''))] = [(''c.txt'', File (Some ''c''))]"
    by (simp add: sortedItems_def sort_with_def)
  have tree: "buildFileTree_unfiltered compare_bytes default_excludeDirs ''repo'' (Dir unsorted_listing)
      = Inr ?tree"
    by (simp add: sortedItems_unsorted_listing s default_excludeDirs_def)
      (simp add: unsorted_listing_def)
  have tree': "buildFileTree_filtered lower_ascii compare_bytes default_excludeDirs ''repo'' (Some [''.md''])
      (Dir unsorted_listing) = Inr (FileTree ''repo'' TDirectory (Some []))"
    by (simp add: sortedItems_unsorted_listing s default_excludeDirs_def extensionIncluded_def
        extname_def lower_ascii_def)
      (simp add: unsorted_listing_def)
  have out: "processDirectory (accepts_unfiltered lower_ascii default_excludeFiles) ''temp-1'' ''repo''
      default_excludeDirs ''temp-1'' (Dir unsorted_listing) ''/* tree */'' = Inr ?out"
    using fileHeader_below_tempDir [of "''z/c.txt''"] fileHeader_below_tempDir [of "''a.txt''"]
    by (simp add: unsorted_listing_def accepts_txt default_excludeDirs_def path_join_def)
  have sorted_route: "depth_first_sorted compare_bytes ''temp-1'' default_excludeDirs (Dir unsorted_listing)
      = [''temp-1/z'', ''temp-1/z/c.txt'', ''temp-1/a.txt'']"
    by (simp add: sortedItems_unsorted_listing s default_excludeDirs_def path_join_def)
  have listed_route: "depth_first_listed ''temp-1'' default_excludeDirs (Dir unsorted_listing)
      = [''temp-1/a.txt'', ''temp-1/z'', ''temp-1/z/c.txt'']"
    by (simp add: unsorted_listing_def default_excludeDirs_def path_join_def)
  from claim have 1: "fst ?build = Inr ?tree" by (simp only: tree)
  from claim have "walked (snd ?build) []
      (depth_first_sorted compare_bytes ''temp-1'' default_excludeDirs (Dir unsorted_listing))
      (\<not> isl (fst ?build))" by blast
  then have 2: "snd ?build = [''temp-1/z'', ''temp-1/z/c.txt'', ''temp-1/a.txt'']"
    unfolding walked_def 1 sorted_route by simp
  from claim have 3: "fst ?build' = Inr (FileTree ''repo'' TDirectory (Some []))" by (simp only: tree')
  from claim have "walked (snd ?build') []
      (depth_first_sorted compare_bytes ''temp-1'' default_excludeDirs (Dir unsorted_listing))
      (\<not> isl (fst ?build'))" by blast
  then have 4: "snd ?build' = [''temp-1/z'', ''temp-1/z/c.txt'', ''temp-1/a.txt'']"
    unfolding walked_def 3 sorted_route by simp
  from claim have 5: "fst ?merge = Inr ?out" by (simp only: out)
  from claim have "walked (snd ?merge) []
      (depth_first_listed ''temp-1'' default_excludeDirs (Dir unsorted_listing)) (\<not> isl (fst ?merge))"
    by blast
  then have 6: "snd ?merge = [''temp-1/a.txt'', ''temp-1/z'', ''temp-1/z/c.txt'']"
    unfolding walked_def 5 listed_route by simp
  from claim have 7: "sorted_wrt (listing_order compare_bytes) (sortedItems compare_bytes unsorted_listing)"
    by blast
  have 8: "map fst (sortedItems compare_bytes unsorted_listing) = [''z'', ''a.txt'']"
    by (simp add: sortedItems_unsorted_listing)
  from 1 2 have "?build = (Inr ?tree, [''temp-1/z'', ''temp-1/z/c.txt'', ''temp-1/a.txt''])"
    by (simp add: prod_eq_iff)
  moreover from 5 6 have "?merge = (Inr ?out, [''temp-1/a.txt'', ''temp-1/z'', ''temp-1/z/c.txt''])"
    by (simp add: prod_eq_iff)
  ultimately show ?thesis using 4 7 8 by (intro conjI)
qed

text \<open>
  Claim C2 as stated fails for the content merger: it reads the listing as it comes.
  \<^verbatim>\<open>fs.readdirSync\<close> lists the file \<^verbatim>\<open>a.txt\<close> before the directory \<^verbatim>\<open>z\<close>, the sort
  puts \<^verbatim>\<open>z\<close> first, and the merger looks at \<^verbatim>\<open>a.txt\<close> before \<^verbatim>\<open>z\<close> and reads
  \<^verbatim>\<open>a.txt\<close> before \<^verbatim>\<open>z/c.txt\<close>: neither its visits nor its result are those of a
  walk in the order of the sort.
\<close>

theorem content_merger_order_counterexample:
  "map fst unsorted_listing = [''a.txt'', ''z''] \<and>
   map fst (sortedItems compare_bytes unsorted_listing) = [''z'', ''a.txt''] \<and>
   depth_first_sorted compare_bytes ''temp-1'' default_excludeDirs (Dir unsorted_listing)
     = [''temp-1/z'', ''temp-1/z/c.txt'', ''temp-1/a.txt''] \<and>
   processDirectory_visiting (accepts_unfiltered lower_ascii default_excludeFiles) ''temp-1'' ''repo''
       default_excludeDirs ''temp-1'' (Dir unsorted_listing) [] []
     = (Inr ([LF] @ ''// File: repo/a.txt'' @ [LF] @ ''a'' @ [LF]
          @ [LF] @ ''// File: repo/z/c.txt'' @ [LF] @ ''c'' @ [LF]),
        [''temp-1/a.txt'', ''temp-1/z'', ''temp-1/z/c.txt'']) \<and>
   processDirectory (accepts_unfiltered lower_ascii default_excludeFiles) ''temp-1'' ''repo'' default_excludeDirs
       ''temp-1'' (Dir unsorted_listing) []
     = Inr ([LF] @ ''// File: repo/a.txt'' @ [LF] @ ''a'' @ [LF]
          @ [LF] @ ''// File: repo/z/c.txt'' @ [LF] @ ''c'' @ [LF]) \<and>
   processDirectory (accepts_unfiltered lower_ascii default_excludeFiles) ''temp-1'' ''repo'' default_excludeDirs
       ''temp-1'' (Dir unsorted_listing) []
     \<noteq> processDirectory (accepts_unfiltered lower_ascii default_excludeFiles) ''temp-1'' ''repo'' default_excludeDirs
       ''temp-1'' (Dir (sortedItems compare_bytes unsorted_listing)) []"
proof -
  have h: "fileHeader ''temp-1'' ''repo'' ''temp-1/z/c.txt'' = [LF] @ ''// File: repo/z/c.txt'' @ [LF]"
    "fileHeader ''temp-1'' ''repo'' ''temp-1/a.txt'' = [LF] @ ''// File: repo/a.txt'' @ [LF]"
    using fileHeader_below_tempDir [of "''z/c.txt''"] fileHeader_below_tempDir [of "''a.txt''"]
    by simp_all
  have 1: "processDirectory (accepts_unfiltered lower_ascii default_excludeFiles) ''temp-1'' ''repo'' default_excludeDirs
       ''temp-1'' (Dir unsorted_listing) []
     = Inr ([LF] @ ''// File: repo/a.txt'' @ [LF] @ ''a'' @ [LF]
          @ [LF] @ ''// File: repo/z/c.txt'' @ [LF] @ ''c'' @ [LF])"
    by (simp add: unsorted_listing_def accepts_txt default_excludeDirs_def path_join_def h)
  have 2: "processDirectory (accepts_unfiltered lower_ascii default_excludeFiles) ''temp-1'' ''repo'' default_excludeDirs
       ''temp-1'' (Dir (sortedItems compare_bytes unsorted_listing)) []
     = Inr ([LF] @ ''// File: repo/z/c.txt'' @ [LF] @ ''c'' @ [LF]
          @ [LF] @ ''// File: repo/a.txt'' @ [LF] @ ''a'' @ [LF])"
    by (simp add: sortedItems_unsorted_listing accepts_txt default_excludeDirs_def path_join_def h)
  have 3: "map fst unsorted_listing = [''a.txt'', ''z'']"
    by (simp add: unsorted_listing_def)
  have 4: "map fst (sortedItems compare_bytes unsorted_listing) = [''z'', ''a.txt'']"
    by (simp add: sortedItems_unsorted_listing)
  have s: "sortedItems compare_bytes [(''c.txt'', File (Some ''c''))] = [(''c.txt'', File (Some ''c''))]"
    by (simp add: sortedItems_def sort_with_def)
  have 5: "depth_first_sorted compare_bytes ''temp-1'' default_excludeDirs (Dir unsorted_listing)
      = [''temp-1/z'', ''temp-1/z/c.txt'', ''temp-1/a.txt'']"
    by (simp add: sortedItems_unsorted_listing s default_excludeDirs_def path_join_def)
  have 6: "processDirectory_visiting (accepts_unfiltered lower_ascii default_excludeFiles) ''temp-1'' ''repo''
       default_excludeDirs ''temp-1'' (Dir unsorted_listing) [] []
     = (Inr ([LF] @ ''// File: repo/a.txt'' @ [LF] @ ''a'' @ [LF]
          @ [LF] @ ''// File: repo/z/c.txt'' @ [LF] @ ''c'' @ [LF]),
        [''temp-1/a.txt'', ''temp-1/z'', ''temp-1/z/c.txt''])"
    using h by (simp add: unsorted_listing_def accepts_txt default_excludeDirs_def path_join_def)
  have 7: "processDirectory (accepts_unfiltered lower_ascii default_excludeFiles) ''temp-1'' ''repo'' default_excludeDirs
       ''temp-1'' (Dir unsorted_listing) []
     \<noteq> processDirectory (accepts_unfiltered lower_ascii default_excludeFiles) ''temp-1'' ''repo'' default_excludeDirs
       ''temp-1'' (Dir (sortedItems compare_bytes unsorted_listing)) []"
    unfolding 1 2 by (simp add: LF_def)
  from 3 4 5 6 1 7 show ?thesis by (intro conjI)
qed

subsection \<open>The blocks of the merged content\<close>






















lemma lower_ascii_textExtensions: "e \<in> set textExtensions \<Longrightarrow> lower_ascii e = e"
  by (auto simp: textExtensions_def lower_ascii_def)




text \<open>
  Nor is the content unmodified when it is not well-formed UTF-8: of the three bytes
  \<open>61 FF 62\<close> the merged content holds \<open>61 EF BF BD 62\<close>, with the replacement
  character in the place of the byte \<open>FF\<close>.
\<close>

lemma ill_formed_content_is_replaced:
  "fs_has_content latin1_listing ([] @ [''notes.txt'']) [CHR 0x61, CHR 0xFF, CHR 0x62] \<and>
   accepts_unfiltered lower_ascii default_excludeFiles ''notes.txt'' \<and>
   \<not> well_formed_utf8 [CHR 0x61, CHR 0xFF, CHR 0x62] \<and>
   processDirectory (accepts_unfiltered lower_ascii default_excludeFiles) ''temp-1'' ''repo'' default_excludeDirs
       ''temp-1'' latin1_listing []
     = Inr ([LF] @ ''// File: repo/notes.txt'' @ [LF] @ [CHR 0x61, CHR 0xEF, CHR 0xBF, CHR 0xBD, CHR 0x62] @ [LF])"
proof -
  have a: "accepts_unfiltered lower_ascii default_excludeFiles ''notes.txt''"
    by (simp add: accepts_unfiltered_def default_excludeFiles_def isTextFile_def extname_def
        lower_ascii_def textExtensions_def)
  have t: "utf8_text [CHR 0x61, CHR 0xFF, CHR 0x62] = [CHR 0x61, CHR 0xEF, CHR 0xBF, CHR 0xBD, CHR 0x62]"
    by (simp add: utf8_text_def utf8_decode.simps replacement_character_def)
  have w: "\<not> well_formed_utf8 [CHR 0x61, CHR 0xFF, CHR 0x62]"
    by (simp add: byte_in_def)
  have f: "fs_has_content latin1_listing ([] @ [''notes.txt'']) [CHR 0x61, CHR 0xFF, CHR 0x62]"
    by (simp add: latin1_listing_def)
  have r: "processDirectory (accepts_unfiltered lower_ascii default_excludeFiles) ''temp-1'' ''repo''
       default_excludeDirs ''temp-1'' latin1_listing []
     = Inr ([LF] @ ''// File: repo/notes.txt'' @ [LF] @ [CHR 0x61, CHR 0xEF, CHR 0xBF, CHR 0xBD, CHR 0x62] @ [LF])"
    using fileHeader_below_tempDir [of "''notes.txt''"]
    by (simp add: latin1_listing_def a t path_join_def)
  from f a w r show ?thesis by (intro conjI)
qed

subsection \<open>The run\<close>


lemma tryBlock_cloned:
  "tryBlock content outputPath (Cloned root) writeOutcome w =
     (case content root of
        Inl e \<Rightarrow> (Inl e, w\<lparr>tempDirNode := Some root\<rparr>)
      | Inr mc \<Rightarrow> writeFileSync writeOutcome outputPath mc (w\<lparr>tempDirNode := Some root\<rparr>))"
  by (simp add: tryBlock_def git_clone_def tempDirRoot_def)

lemma tryBlock_not_cloned:
  "tryBlock content outputPath (CloneAborted left) writeOutcome w =
     (Inl CloneFailed, w\<lparr>tempDirNode := left\<rparr>)"
  by (simp add: tryBlock_def git_clone_def)

lemma finallyBlock_leaves [simp]:
  "files (snd (finallyBlock rmOutcome w)) = files w"
  "writeCalls (snd (finallyBlock rmOutcome w)) = writeCalls w"
  by (simp_all add: finallyBlock_def existsSync_tempDir_def rmSync_tempDir_def split: rm_outcome.splits)

lemma finallyBlock_existing:
  "tempDirNode w = Some node \<Longrightarrow>
   finallyBlock rmOutcome w =
     (case rmOutcome of
        Removed \<Rightarrow> (Inr (), w\<lparr>tempDirNode := None\<rparr>)
      | RemoveAborted left \<Rightarrow> (Inl RemoveFailed, w\<lparr>tempDirNode := Some left\<rparr>))"
  by (simp add: finallyBlock_def existsSync_tempDir_def rmSync_tempDir_def)

lemma finallyBlock_missing:
  "tempDirNode w = None \<Longrightarrow> finallyBlock rmOutcome w = (Inr (), w)"
  by (simp add: finallyBlock_def existsSync_tempDir_def)

lemma completion_simps [simp]:
  "completion result (Inr u) = result"
  "completion result (Inl e) = Inl e"
  by (simp_all add: completion_def)




lemma sample_url_name: "getRepoNameFromUrl ''https://github.com/user/repo.git'' = ''repo''"
  by (simp add: getRepoNameFromUrl_def try_tail.simps)




lemma run_cleanup:
  assumes "run = (let (result, w1) = tryBlock content outputPath cloneOutcome writeOutcome w;
                      (cleanup, w2) = finallyBlock rmOutcome w1
                  in (completion result cleanup, w2))"
  shows "(rmOutcome = Removed \<longrightarrow> tempDirNode (snd run) = None) \<and>
         (rmOutcome = RemoveAborted left \<and> tempDirNode (snd run) \<noteq> None \<longrightarrow>
            fst run = Inl RemoveFailed \<and> tempDirNode (snd run) = Some left)"
proof -
  obtain result w1 where t: "tryBlock content outputPath cloneOutcome writeOutcome w = (result, w1)"
    by (cases "tryBlock content outputPath cloneOutcome writeOutcome w")
  show ?thesis
  proof (cases "tempDirNode w1")
    case None
    then show ?thesis using assms t by (simp add: finallyBlock_missing)
  next
    case (Some node)
    then show ?thesis using assms t by (cases rmOutcome) (simp_all add: finallyBlock_existing)
  qed
qed

text \<open>
  Claim C4, amended. Whatever the clone, the walks and the write do, and whatever was under the
  name of the temporary directory before, in both variants: when \<^verbatim>\<open>fs.rmSync\<close> does
  not fail, nothing is under that name when the run returns; and when something is left
  under that name, it is what the failed \<^verbatim>\<open>fs.rmSync\<close> left, and the run ends
  with the error of the removal.
\<close>

theorem temporary_directory_removed_unless_removal_fails:
  fixes options :: Options and options' :: Options_filtered
    and now :: nat and githubUrl isoTime :: string
    and toLowerCase :: "string \<Rightarrow> string"
    and localeCompare :: "string \<Rightarrow> string \<Rightarrow> int"
    and cloneOutcome :: clone_outcome and writeOutcome :: write_outcome and rmOutcome :: rm_outcome
    and w :: world
  defines "run \<equiv> mergeRepositoryFiles_unfiltered toLowerCase localeCompare now isoTime cloneOutcome writeOutcome
      rmOutcome githubUrl options w"
    and "run' \<equiv> mergeRepositoryFiles_filtered toLowerCase localeCompare now isoTime cloneOutcome writeOutcome
      rmOutcome githubUrl options' w"
  shows
    "(rmOutcome = Removed \<longrightarrow> tempDirNode (snd run) = None \<and> tempDirNode (snd run') = None) \<and>
     (rmOutcome = RemoveAborted left \<and> tempDirNode (snd run) \<noteq> None \<longrightarrow>
        fst run = Inl RemoveFailed \<and> tempDirNode (snd run) = Some left) \<and>
     (rmOutcome = RemoveAborted left \<and> tempDirNode (snd run') \<noteq> None \<longrightarrow>
        fst run' = Inl RemoveFailed \<and> tempDirNode (snd run') = Some left)"
proof -
  have "run = (let (result, w1) =
                 tryBlock
                   (mergedContent_unfiltered toLowerCase localeCompare githubUrl
                      (orDefault (opt_excludeDirs options) default_excludeDirs)
                      (orDefault (opt_excludeFiles options) default_excludeFiles)
                      (''temp-'' @ string_of_nat now) (getRepoNameFromUrl githubUrl) isoTime)
                   (orDefault (opt_outputPath options) default_outputPath) cloneOutcome writeOutcome w;
                   (cleanup, w2) = finallyBlock rmOutcome w1
               in (completion result cleanup, w2))"
    by (simp add: run_def mergeRepositoryFiles_unfiltered_def Let_def)
  note u = run_cleanup [OF this, of left]
  have "run' = (let (result, w1) =
                 tryBlock
                   (mergedContent_filtered toLowerCase localeCompare githubUrl
                      (orDefault (opt_excludeDirs options') default_excludeDirs)
                      (orDefault (opt_excludeFiles options') default_excludeFiles)
                      (opt_includeExtensions options')
                      (''temp-'' @ string_of_nat now) (getRepoNameFromUrl githubUrl) isoTime)
                   (orDefault (opt_outputPath options') default_outputPath) cloneOutcome writeOutcome w;
                   (cleanup, w2) = finallyBlock rmOutcome w1
               in (completion result cleanup, w2))"
    by (simp add: run'_def mergeRepositoryFiles_filtered_def Let_def)
  note f = run_cleanup [OF this, of left]
  from u f show ?thesis by blast
qed

lemma locked_listing_run:
  "mergeRepositoryFiles_unfiltered lower_ascii compare_bytes 1 ''2026-01-01T00:00:00.000Z''
       (Cloned locked_listing) Written (RemoveAborted (Dir [(''private'', Unlistable)]))
       ''https://github.com/user/repo.git'' no_options earlier_world
     = (Inl RemoveFailed, earlier_world\<lparr>tempDirNode := Some (Dir [(''private'', Unlistable)])\<rparr>)"
proof -
  have b: "buildFileTree_unfiltered compare_bytes default_excludeDirs ''repo'' locked_listing = Inl ReaddirFailed"
    by (simp add: locked_listing_def default_excludeDirs_def sortedItems_def sort_with_def compareItems_def)
  have o: "orDefault (opt_excludeDirs no_options) default_excludeDirs = default_excludeDirs"
    by (simp add: no_options_def orDefault_def)
  show ?thesis
    by (simp add: b o sample_url_name mergeRepositoryFiles_unfiltered_def Let_def tryBlock_cloned
        mergedContent_unfiltered_def finallyBlock_existing)
qed

theorem temporary_directory_removed_unless_removal_fails_witness:
  "tempDirNode (snd (mergeRepositoryFiles_unfiltered lower_ascii compare_bytes 1 ''2026-01-01T00:00:00.000Z''
      (CloneAborted (Some (Dir [(''.git'', Dir [])]))) Written Removed ''https://github.com/user/repo.git''
      no_options earlier_world)) = None \<and>
   tempDirNode (snd (mergeRepositoryFiles_unfiltered lower_ascii compare_bytes 1 ''2026-01-01T00:00:00.000Z''
      (Cloned unreadable_listing) Written Removed ''https://github.com/user/repo.git''
      no_options earlier_world)) = None \<and>
   tempDirNode (snd (mergeRepositoryFiles_unfiltered lower_ascii compare_bytes 1 ''2026-01-01T00:00:00.000Z''
      (Cloned example_listing) (WriteAborted None) Removed ''https://github.com/user/repo.git''
      no_options earlier_world)) = None \<and>
   fst (mergeRepositoryFiles_unfiltered lower_ascii compare_bytes 1 ''2026-01-01T00:00:00.000Z''
      (Cloned locked_listing) Written (RemoveAborted (Dir [(''private'', Unlistable)]))
      ''https://github.com/user/repo.git'' no_options earlier_world) = Inl RemoveFailed"
proof -
  let ?run = "\<lambda>cloneOutcome writeOutcome rmOutcome.
    mergeRepositoryFiles_unfiltered lower_ascii compare_bytes 1 ''2026-01-01T00:00:00.000Z''
      cloneOutcome writeOutcome rmOutcome ''https://github.com/user/repo.git'' no_options earlier_world"
  note t = temporary_directory_removed_unless_removal_fails [where toLowerCase = lower_ascii
      and localeCompare = compare_bytes and now = 1
      and isoTime = "''2026-01-01T00:00:00.000Z''" and githubUrl = "''https://github.com/user/repo.git''"
      and options = no_options and w = earlier_world]
  have left: "tempDirNode (snd (?run (Cloned locked_listing) Written
      (RemoveAborted (Dir [(''private'', Unlistable)])))) \<noteq> None"
    by (simp only: locked_listing_run) simp
  from t [where rmOutcome = Removed] t [where rmOutcome = "RemoveAborted (Dir [(''private'', Unlistable)])"
      and cloneOutcome = "Cloned locked_listing" and writeOutcome = Written
      and left = "Dir [(''private'', Unlistable)]"] left
  show ?thesis by blast
qed

text \<open>
  Claim C4 as stated fails where \<^verbatim>\<open>fs.rmSync\<close> throws: the clone holds a
  directory that may not be listed, the tree builder fails on it, the removal in the
  \<^verbatim>\<open>finally\<close> clause fails on it too, and the directory is still there after the run.
\<close>

theorem temporary_directory_remains_counterexample:
  "buildFileTree_unfiltered compare_bytes default_excludeDirs ''repo'' locked_listing = Inl ReaddirFailed \<and>
   mergeRepositoryFiles_unfiltered lower_ascii compare_bytes 1 ''2026-01-01T00:00:00.000Z''
       (Cloned locked_listing) Written (RemoveAborted (Dir [(''private'', Unlistable)]))
       ''https://github.com/user/repo.git'' no_options earlier_world
     = (Inl RemoveFailed, earlier_world\<lparr>tempDirNode := Some (Dir [(''private'', Unlistable)])\<rparr>) \<and>
   tempDirNode (snd (mergeRepositoryFiles_unfiltered lower_ascii compare_bytes 1 ''2026-01-01T00:00:00.000Z''
       (Cloned locked_listing) Written (RemoveAborted (Dir [(''private'', Unlistable)]))
       ''https://github.com/user/repo.git'' no_options earlier_world)) \<noteq> None"
proof -
  have "buildFileTree_unfiltered compare_bytes default_excludeDirs ''repo'' locked_listing = Inl ReaddirFailed"
    by (simp add: locked_listing_def default_excludeDirs_def sortedItems_def sort_with_def compareItems_def)
  then show ?thesis
    by (simp only: locked_listing_run) simp
qed

end
